theory Spec2Isabelle
  imports Main
begin

section \<open>JavaScript values read by the plugin\<close>

text \<open>
  Strings are lists of code units.  A string is falsy exactly when it is empty, so
  \<^verbatim>\<open>a || b\<close> on a string \<open>a\<close> is \<open>b\<close> when \<open>a\<close> is empty and \<open>a\<close> otherwise.
\<close>

definition str_or :: "string \<Rightarrow> string \<Rightarrow> string" where
  "str_or a b = (if a = [] then b else a)"

text \<open>\<^verbatim>\<open>main.key || undefined\<close>: the optional field is left out when the key is empty.\<close>

definition key_or_undefined :: "string \<Rightarrow> string option" where
  "key_or_undefined k = (if k = [] then None else Some k)"

text \<open>\<^verbatim>\<open>group.componentKey || group.componentId\<close> on the optional field.\<close>

definition opt_or :: "string option \<Rightarrow> string \<Rightarrow> string" where
  "opt_or k d = (case k of None \<Rightarrow> d | Some s \<Rightarrow> str_or s d)"

text \<open>
  A value thrown by a host call: an \<^verbatim>\<open>Error\<close> object with its message, or any other
  value (\<^verbatim>\<open>error instanceof Error\<close> is false for it).
\<close>

datatype thrown = ThrownError string | ThrownOther

text \<open>
  A property that the code tests with \<^verbatim>\<open>typeof x === 'string'\<close>: missing, present with
  a value that is not a string, or a string.
\<close>

datatype jsfield = Missing | NonString | Str string

subsection \<open>Array.prototype.sort with a comparator\<close>

text \<open>
  The comparator returns a number whose sign decides.  The sort is stable; for a
  comparator that is a consistent total preorder its result is the one stable sorted
  arrangement, which insertion from the right computes.  \<^verbatim>\<open>localeCompare\<close> is a
  capability of the host's collation and is a parameter of every function below.
\<close>

type_synonym 'a comparator = "'a \<Rightarrow> 'a \<Rightarrow> int"

fun sort_insert :: "'a comparator \<Rightarrow> 'a \<Rightarrow> 'a list \<Rightarrow> 'a list" where
  "sort_insert c x [] = [x]"
| "sort_insert c x (y # ys) = (if c x y \<le> 0 then x # y # ys else y # sort_insert c x ys)"

fun array_sort :: "'a comparator \<Rightarrow> 'a list \<Rightarrow> 'a list" where
  "array_sort c [] = []"
| "array_sort c (x # xs) = sort_insert c x (array_sort c xs)"

text \<open>A comparator is consistent when it is total and transitive, as a collation is.\<close>

definition consistent :: "'a comparator \<Rightarrow> bool" where
  "consistent c \<longleftrightarrow>
     (\<forall>a b. c a b \<le> 0 \<or> c b a \<le> 0) \<and>
     (\<forall>a b d. c a b \<le> 0 \<longrightarrow> c b d \<le> 0 \<longrightarrow> c a d \<le> 0)"

section \<open>The document\<close>

record component_node =
  comp_id :: string
  comp_key :: string
  comp_name :: string

text \<open>
  \<^verbatim>\<open>node.mainComponent\<close>: not set on the node (\<^verbatim>\<open>undefined\<close>), \<^verbatim>\<open>null\<close>, or the
  definition.
\<close>

datatype main_ref = MainUndefined | MainNull | MainComponent component_node

text \<open>An entry of \<^verbatim>\<open>boundVariables\<close>: a falsy value, or an object with its \<^verbatim>\<open>id\<close>.\<close>

datatype binding = NoBinding | Binding (binding_id: jsfield)

text \<open>
  \<open>boundVariables\<close> is \<open>None\<close> when the node has no such property or the property is
  falsy; otherwise it lists the entries in the order of \<^verbatim>\<open>Object.keys\<close>.
\<close>

record scene_node =
  node_id :: string
  node_name :: string
  node_type :: string
  mainComponent :: main_ref
  boundVariables :: "(string \<times> binding) list option"

text \<open>
  A page with what the host's \<^verbatim>\<open>findAll\<close> enumerates below it, in traversal order, or
  the value the host call throws.
\<close>

record page_node =
  page_id :: string
  page_name :: string
  descendants :: "thrown + scene_node list"

definition findAll :: "page_node \<Rightarrow> (scene_node \<Rightarrow> bool) \<Rightarrow> thrown + scene_node list" where
  "findAll page p = (case descendants page of Inl e \<Rightarrow> Inl e | Inr ns \<Rightarrow> Inr (filter p ns))"

section \<open>Pipeline 1: instance usage\<close>

record instance_usage =
  usage_id :: string
  usage_name :: string
  usage_componentId :: string
  usage_componentKey :: "string option"
  usage_componentName :: string

record component_group =
  componentId :: string
  componentKey :: "string option"
  componentName :: string
  instances :: "instance_usage list"

record page_data =
  pageId :: string
  pageName :: string
  instanceCount :: nat
  componentGroups :: "component_group list"

record summary_data =
  totalInstances :: nat
  totalUniqueComponents :: nat
  pageBreakdown :: "page_data list"

subsection \<open>The insertion-ordered Map of groups\<close>

type_synonym group_map = "(string \<times> component_group) list"

definition map_has :: "group_map \<Rightarrow> string \<Rightarrow> bool" where
  "map_has m k = (k \<in> set (map fst m))"

fun map_set :: "group_map \<Rightarrow> string \<Rightarrow> component_group \<Rightarrow> group_map" where
  "map_set [] k g = [(k, g)]"
| "map_set ((k', g') # m) k g = (if k' = k then (k, g) # m else (k', g') # map_set m k g)"

text \<open>\<^verbatim>\<open>groups.get(groupKey).instances.push(u)\<close>: the group is changed inside the Map.\<close>

fun map_push :: "group_map \<Rightarrow> string \<Rightarrow> instance_usage \<Rightarrow> group_map" where
  "map_push [] k u = []"
| "map_push ((k', g') # m) k u =
     (if k' = k then (k', g'\<lparr>instances := instances g' @ [u]\<rparr>) # m
      else (k', g') # map_push m k u)"

subsection \<open>getInstancesForPage\<close>

definition isInstance :: "scene_node \<Rightarrow> bool" where
  "isInstance node = (node_type node = ''INSTANCE'')"

definition groupKey :: "component_node \<Rightarrow> string" where
  "groupKey main = str_or (comp_key main) (comp_id main)"

definition new_group :: "component_node \<Rightarrow> component_group" where
  "new_group main =
     \<lparr>componentId = comp_id main,
      componentKey = key_or_undefined (comp_key main),
      componentName = str_or (comp_name main) ''Unnamed Component'',
      instances = []\<rparr>"

definition usage_of :: "scene_node \<Rightarrow> component_node \<Rightarrow> instance_usage" where
  "usage_of instance main =
     \<lparr>usage_id = node_id instance,
      usage_name = str_or (node_name instance) ''Instance'',
      usage_componentId = comp_id main,
      usage_componentKey = key_or_undefined (comp_key main),
      usage_componentName = str_or (comp_name main) ''Unnamed Component''\<rparr>"

text \<open>One turn of the loop over the instances; \<^verbatim>\<open>!main\<close> holds for null and undefined.\<close>

definition group_step :: "group_map \<Rightarrow> scene_node \<Rightarrow> group_map" where
  "group_step groups instance =
     (case mainComponent instance of
        MainComponent main \<Rightarrow>
          (let groups' = (if \<not> map_has groups (groupKey main)
                          then map_set groups (groupKey main) (new_group main)
                          else groups)
           in map_push groups' (groupKey main) (usage_of instance main))
      | _ \<Rightarrow> groups)"

fun collect_groups :: "scene_node list \<Rightarrow> group_map \<Rightarrow> group_map" where
  "collect_groups [] groups = groups"
| "collect_groups (instance # rest) groups = collect_groups rest (group_step groups instance)"

definition by_componentName :: "string comparator \<Rightarrow> component_group comparator" where
  "by_componentName cmp a b = cmp (componentName a) (componentName b)"

definition by_usage_name :: "string comparator \<Rightarrow> instance_usage comparator" where
  "by_usage_name cmp a b = cmp (usage_name a) (usage_name b)"

definition sort_instances :: "string comparator \<Rightarrow> component_group \<Rightarrow> component_group" where
  "sort_instances cmp g = g\<lparr>instances := array_sort (by_usage_name cmp) (instances g)\<rparr>"

definition getInstancesForPage ::
  "string comparator \<Rightarrow> page_node \<Rightarrow> thrown + component_group list" where
  "getInstancesForPage cmp page =
     (case findAll page isInstance of
        Inl e \<Rightarrow> Inl e
      | Inr found \<Rightarrow>
          (let groups = collect_groups found [];
               sortedGroups = array_sort (by_componentName cmp) (map snd groups)
           in Inr (map (sort_instances cmp) sortedGroups)))"

subsection \<open>scanFile\<close>

text \<open>The Set of keys, in insertion order; \<^verbatim>\<open>size\<close> is its length.\<close>

definition set_add :: "string list \<Rightarrow> string \<Rightarrow> string list" where
  "set_add ks k = (if k \<in> set ks then ks else ks @ [k])"

record scan_vars =
  var_pageBreakdown :: "page_data list"
  var_totalInstances :: nat
  var_uniqueComponentKeys :: "string list"

definition count_instances :: "component_group list \<Rightarrow> nat" where
  "count_instances gs = foldl (\<lambda>acc g. acc + length (instances g)) 0 gs"

definition add_keys :: "string list \<Rightarrow> component_group list \<Rightarrow> string list" where
  "add_keys ks gs = foldl (\<lambda>ks g. set_add ks (opt_or (componentKey g) (componentId g))) ks gs"

definition scan_page :: "scan_vars \<Rightarrow> page_node \<Rightarrow> component_group list \<Rightarrow> scan_vars" where
  "scan_page v page gs =
     \<lparr>var_pageBreakdown = var_pageBreakdown v @
        [\<lparr>pageId = page_id page, pageName = page_name page,
          instanceCount = count_instances gs, componentGroups = gs\<rparr>],
      var_totalInstances = var_totalInstances v + count_instances gs,
      var_uniqueComponentKeys = add_keys (var_uniqueComponentKeys v) gs\<rparr>"

text \<open>The loop over the pages; an exception of a page's traversal ends the scan.\<close>

fun scan_pages :: "string comparator \<Rightarrow> page_node list \<Rightarrow> scan_vars \<Rightarrow> thrown + scan_vars" where
  "scan_pages cmp [] v = Inr v"
| "scan_pages cmp (page # rest) v =
     (case getInstancesForPage cmp page of
        Inl e \<Rightarrow> Inl e
      | Inr gs \<Rightarrow>
          (if length gs = 0 then scan_pages cmp rest v
           else scan_pages cmp rest (scan_page v page gs)))"

definition scanFile1 :: "string comparator \<Rightarrow> page_node list \<Rightarrow> thrown + summary_data" where
  "scanFile1 cmp pages =
     (case scan_pages cmp pages
             \<lparr>var_pageBreakdown = [], var_totalInstances = 0, var_uniqueComponentKeys = []\<rparr> of
        Inl e \<Rightarrow> Inl e
      | Inr v \<Rightarrow>
          Inr \<lparr>totalInstances = var_totalInstances v,
               totalUniqueComponents = length (var_uniqueComponentKeys v),
               pageBreakdown = var_pageBreakdown v\<rparr>)"

section \<open>Pipeline 2: detached components and variables\<close>

datatype detached_type = Component | Variable

text \<open>\<open>metadata\<close> is the optional \<^verbatim>\<open>Record<string, string>\<close>, as its list of entries.\<close>

record detached_item =
  item_id :: string
  item_name :: string
  item_type :: detached_type
  item_pageId :: string
  item_pageName :: string
  metadata :: "(string \<times> string) list option"

record detached_page =
  d_pageId :: string
  d_pageName :: string
  items :: "detached_item list"

record detached_summary =
  totalDetachedComponents :: nat
  totalDetachedVariables :: nat
  d_pageBreakdown :: "detached_page list"

definition isInstanceNode :: "scene_node \<Rightarrow> bool" where
  "isInstanceNode node = (node_type node = ''INSTANCE'')"

definition isDetachedComponent :: "scene_node \<Rightarrow> bool" where
  "isDetachedComponent node = (isInstanceNode node \<and> mainComponent node = MainNull)"

text \<open>
  The host's variables: \<open>None\<close> when \<^verbatim>\<open>figma.variables\<close> is falsy, otherwise the
  predicate telling for which ids \<^verbatim>\<open>getVariableById\<close> returns a variable.  \<open>resolves\<close> is
  the truth value of \<^verbatim>\<open>figma.variables && figma.variables.getVariableById(variableId)\<close>.
\<close>

type_synonym variables_api = "(string \<Rightarrow> bool) option"

definition resolves :: "variables_api \<Rightarrow> string \<Rightarrow> bool" where
  "resolves vars variableId = (case vars of None \<Rightarrow> False | Some live \<Rightarrow> live variableId)"

text \<open>The separator of the template literal: a space, the middle dot U+00B7, a space.\<close>

definition separator :: string where
  "separator = [CHR '' '', CHR 0xB7, CHR '' '']"

definition variable_item :: "scene_node \<Rightarrow> page_node \<Rightarrow> string \<Rightarrow> detached_item" where
  "variable_item node page propertyName =
     \<lparr>item_id = node_id node,
      item_name = str_or (node_name node) (node_type node) @ separator @ propertyName,
      item_type = Variable,
      item_pageId = page_id page,
      item_pageName = page_name page,
      metadata = Some [(''property'', propertyName)]\<rparr>"

definition component_item :: "scene_node \<Rightarrow> page_node \<Rightarrow> detached_item" where
  "component_item node page =
     \<lparr>item_id = node_id node,
      item_name = str_or (node_name node) ''Unnamed Instance'',
      item_type = Component,
      item_pageId = page_id page,
      item_pageName = page_name page,
      metadata = None\<rparr>"

text \<open>
  The loop over \<^verbatim>\<open>Object.keys(boundVars)\<close>.  \<open>variableId\<close> is the id when it is a string
  and \<^verbatim>\<open>null\<close> otherwise; \<^verbatim>\<open>!variableId\<close> also holds for the empty string.
\<close>

fun variable_loop ::
  "variables_api \<Rightarrow> scene_node \<Rightarrow> page_node \<Rightarrow> (string \<times> binding) list \<Rightarrow>
   detached_item list \<Rightarrow> detached_item list" where
  "variable_loop vars node page [] found = found"
| "variable_loop vars node page ((propertyName, b) # rest) found =
     (case b of
        NoBinding \<Rightarrow> variable_loop vars node page rest found
      | Binding idf \<Rightarrow>
          (let variableId = (case idf of Str v \<Rightarrow> Some v | _ \<Rightarrow> None)
           in case variableId of
                None \<Rightarrow> variable_loop vars node page rest found
              | Some v \<Rightarrow>
                  if v = [] then variable_loop vars node page rest found
                  else if \<not> resolves vars v
                  then variable_loop vars node page rest
                         (found @ [variable_item node page propertyName])
                  else variable_loop vars node page rest found))"

definition extractDetachedVariables ::
  "variables_api \<Rightarrow> scene_node \<Rightarrow> page_node \<Rightarrow> detached_item list" where
  "extractDetachedVariables vars node page =
     (case boundVariables node of
        None \<Rightarrow> []
      | Some boundVars \<Rightarrow> variable_loop vars node page boundVars [])"

fun node_loop ::
  "variables_api \<Rightarrow> page_node \<Rightarrow> scene_node list \<Rightarrow> detached_item list \<Rightarrow>
   detached_item list" where
  "node_loop vars page [] found = found"
| "node_loop vars page (node # rest) found =
     (let found1 = (if isDetachedComponent node then found @ [component_item node page]
                    else found);
          variableIssues = extractDetachedVariables vars node page;
          found2 = (if length variableIssues > 0 then found1 @ variableIssues else found1)
      in node_loop vars page rest found2)"

definition getDetachedItemsForPage ::
  "variables_api \<Rightarrow> page_node \<Rightarrow> thrown + detached_item list" where
  "getDetachedItemsForPage vars page =
     (case findAll page (\<lambda>node. True) of
        Inl e \<Rightarrow> Inl e
      | Inr nodes \<Rightarrow> Inr (node_loop vars page nodes []))"

definition add_page :: "detached_summary \<Rightarrow> page_node \<Rightarrow> detached_item list \<Rightarrow> detached_summary" where
  "add_page v page pageItems =
     \<lparr>totalDetachedComponents =
        totalDetachedComponents v + length (filter (\<lambda>item. item_type item = Component) pageItems),
      totalDetachedVariables =
        totalDetachedVariables v + length (filter (\<lambda>item. item_type item = Variable) pageItems),
      d_pageBreakdown = d_pageBreakdown v @
        [\<lparr>d_pageId = page_id page, d_pageName = page_name page, items = pageItems\<rparr>]\<rparr>"

fun scan_pages2 ::
  "variables_api \<Rightarrow> page_node list \<Rightarrow> detached_summary \<Rightarrow> thrown + detached_summary" where
  "scan_pages2 vars [] v = Inr v"
| "scan_pages2 vars (page # rest) v =
     (case getDetachedItemsForPage vars page of
        Inl e \<Rightarrow> Inl e
      | Inr pageItems \<Rightarrow>
          (if length pageItems > 0 then scan_pages2 vars rest (add_page v page pageItems)
           else scan_pages2 vars rest v))"

definition scanFile2 :: "variables_api \<Rightarrow> page_node list \<Rightarrow> thrown + detached_summary" where
  "scanFile2 vars pages =
     scan_pages2 vars pages
       \<lparr>totalDetachedComponents = 0, totalDetachedVariables = 0, d_pageBreakdown = []\<rparr>"

section \<open>The host, navigation and the request dispatcher\<close>

text \<open>
  What navigation reads of a node: its id, its type tag and its parent link.  The link is
  missing (the object has no \<^verbatim>\<open>parent\<close> property), \<^verbatim>\<open>null\<close>, or the parent node; the
  document is a tree, so every chain of parents ends.
\<close>

datatype base_node = BaseNode (base_id: string) (base_type: string) (base_parent: parent_ref)
  and parent_ref = NoParentProperty | ParentNull | Parent base_node

datatype 's ui_message = Ready | Results 's | ErrorMessage string

text \<open>
  The host state: the document, the active page, and the logs of the calls that have an
  effect outside the plugin (\<^verbatim>\<open>scrollAndZoomIntoView\<close>, \<^verbatim>\<open>notify\<close> with its timeout,
  \<^verbatim>\<open>ui.postMessage\<close>).
\<close>

record 's host =
  root_children :: "page_node list"
  getNodeById :: "string \<Rightarrow> base_node option"
  currentPage :: base_node
  scrolled :: "base_node list list"
  notices :: "(string \<times> nat) list"
  posted :: "'s ui_message list"

definition notify :: "string \<Rightarrow> nat \<Rightarrow> 's host \<Rightarrow> 's host" where
  "notify message timeout h = h\<lparr>notices := notices h @ [(message, timeout)]\<rparr>"

definition postMessage :: "'s ui_message \<Rightarrow> 's host \<Rightarrow> 's host" where
  "postMessage m h = h\<lparr>posted := posted h @ [m]\<rparr>"

text \<open>The loop of resolvePage, on the value of \<open>current\<close>.\<close>

fun page_above :: "parent_ref \<Rightarrow> base_node option" where
  "page_above NoParentProperty = None"
| "page_above ParentNull = None"
| "page_above (Parent (BaseNode i t p)) =
     (if t = ''PAGE'' then Some (BaseNode i t p) else page_above p)"

definition resolvePage :: "base_node \<Rightarrow> base_node option" where
  "resolvePage node = page_above (base_parent node)"

definition focusNode :: "string \<Rightarrow> 's host \<Rightarrow> 's host" where
  "focusNode nodeId h =
     (case getNodeById h nodeId of
        None \<Rightarrow>
          postMessage (ErrorMessage ''Node not found or removed.'')
            (notify ''Target node not found. It may have been deleted.'' 2000 h)
      | Some node \<Rightarrow>
          (let h' = (case resolvePage node of
                       Some page \<Rightarrow> h\<lparr>currentPage := page\<rparr>
                     | None \<Rightarrow> h)
           in h'\<lparr>scrolled := scrolled h' @ [[node]]\<rparr>))"

text \<open>The catch clause: the message of an Error, a fixed text for anything else.\<close>

definition failure_message :: "thrown \<Rightarrow> string" where
  "failure_message error =
     (case error of ThrownError m \<Rightarrow> m | ThrownOther \<Rightarrow> ''Unexpected error during scan'')"

definition report_failure :: "thrown \<Rightarrow> 's host \<Rightarrow> 's host" where
  "report_failure error h =
     postMessage (ErrorMessage (failure_message error))
       (notify (failure_message error) 2000 h)"

definition handleScanRequest1 :: "string comparator \<Rightarrow> summary_data host \<Rightarrow> summary_data host" where
  "handleScanRequest1 cmp h =
     (case scanFile1 cmp (root_children h) of
        Inr summary \<Rightarrow>
          (if length (pageBreakdown summary) = 0
           then postMessage
                  (Results \<lparr>totalInstances = 0, totalUniqueComponents = 0, pageBreakdown = []\<rparr>) h
           else postMessage (Results summary) h)
      | Inl error \<Rightarrow> report_failure error h)"

definition handleScanRequest2 ::
  "variables_api \<Rightarrow> detached_summary host \<Rightarrow> detached_summary host" where
  "handleScanRequest2 vars h =
     (case scanFile2 vars (root_children h) of
        Inr summary \<Rightarrow>
          (if length (d_pageBreakdown summary) = 0
           then postMessage
                  (Results \<lparr>totalDetachedComponents = 0, totalDetachedVariables = 0,
                            d_pageBreakdown = []\<rparr>) h
           else postMessage (Results summary) h)
      | Inl error \<Rightarrow> report_failure error h)"

text \<open>
  A message from the panel: something that is falsy or not an object, or an object with
  its \<^verbatim>\<open>type\<close> and \<^verbatim>\<open>nodeId\<close> properties.
\<close>

datatype plugin_message = NotAnObject | Request (request_type: jsfield) (request_nodeId: jsfield)

definition onmessage :: "('s host \<Rightarrow> 's host) \<Rightarrow> plugin_message \<Rightarrow> 's host \<Rightarrow> 's host" where
  "onmessage handleScanRequest pluginMessage h =
     (case pluginMessage of
        NotAnObject \<Rightarrow> h
      | Request t nodeId \<Rightarrow>
          if t = Str ''scan'' then handleScanRequest h
          else if t = Str ''navigate''
          then (case nodeId of Str i \<Rightarrow> focusNode i h | _ \<Rightarrow> h)
          else h)"

definition onmessage1 :: "string comparator \<Rightarrow> plugin_message \<Rightarrow> summary_data host \<Rightarrow> summary_data host" where
  "onmessage1 cmp = onmessage (handleScanRequest1 cmp)"

definition onmessage2 ::
  "variables_api \<Rightarrow> plugin_message \<Rightarrow> detached_summary host \<Rightarrow> detached_summary host" where
  "onmessage2 vars = onmessage (handleScanRequest2 vars)"

section \<open>The TypeScript sources\<close>

text \<open>
  The TypeScript of each pipeline, translated on its own: the loops are folds over the
  array with the body written in place, and the variables of scanFile are separate
  arguments (\<open>breakdown\<close>, \<open>instanceTotal\<close> and \<open>uniqueKeys\<close> stand for pageBreakdown,
  totalInstances and uniqueComponentKeys, \<open>mainId\<close> and \<open>key\<close> for componentId and
  groupKey).  Type annotations, casts and the non-null assertion leave no trace.
\<close>

definition getInstancesForPage_ts ::
  "string comparator \<Rightarrow> page_node \<Rightarrow> thrown + component_group list" where
  "getInstancesForPage_ts cmp page =
     (case findAll page (\<lambda>node. node_type node = ''INSTANCE'') of
        Inl e \<Rightarrow> Inl e
      | Inr found \<Rightarrow>
          (let groups =
                 foldl (\<lambda>groups instance.
                    case mainComponent instance of
                      MainUndefined \<Rightarrow> groups
                    | MainNull \<Rightarrow> groups
                    | MainComponent main \<Rightarrow>
                        (let mainId = comp_id main;
                             key = str_or (comp_key main) mainId;
                             groups' =
                               (if \<not> map_has groups key
                                then map_set groups key
                                       \<lparr>componentId = mainId,
                                        componentKey = key_or_undefined (comp_key main),
                                        componentName =
                                          str_or (comp_name main) ''Unnamed Component'',
                                        instances = []\<rparr>
                                else groups)
                         in map_push groups' key
                              \<lparr>usage_id = node_id instance,
                               usage_name = str_or (node_name instance) ''Instance'',
                               usage_componentId = mainId,
                               usage_componentKey = key_or_undefined (comp_key main),
                               usage_componentName =
                                 str_or (comp_name main) ''Unnamed Component''\<rparr>))
                   [] found;
               sortedGroups =
                 array_sort (\<lambda>a b. cmp (componentName a) (componentName b)) (map snd groups)
           in Inr (map (\<lambda>group. group\<lparr>instances :=
                          array_sort (\<lambda>a b. cmp (usage_name a) (usage_name b))
                            (instances group)\<rparr>)
                     sortedGroups)))"

fun scanFile_loop_ts ::
  "string comparator \<Rightarrow> page_node list \<Rightarrow> page_data list \<Rightarrow> nat \<Rightarrow> string list \<Rightarrow>
   thrown + summary_data" where
  "scanFile_loop_ts cmp [] breakdown instanceTotal uniqueKeys =
     Inr \<lparr>totalInstances = instanceTotal,
          totalUniqueComponents = length uniqueKeys,
          pageBreakdown = breakdown\<rparr>"
| "scanFile_loop_ts cmp (page # rest) breakdown instanceTotal uniqueKeys =
     (case getInstancesForPage_ts cmp page of
        Inl e \<Rightarrow> Inl e
      | Inr groups \<Rightarrow>
          if length groups = 0
          then scanFile_loop_ts cmp rest breakdown instanceTotal uniqueKeys
          else
            (let pageCount =
                   foldl (\<lambda>acc group. acc + length (instances group)) 0 groups
             in scanFile_loop_ts cmp rest
                  (breakdown @
                     [\<lparr>pageId = page_id page, pageName = page_name page,
                       instanceCount = pageCount, componentGroups = groups\<rparr>])
                  (instanceTotal + pageCount)
                  (foldl (\<lambda>keys group.
                            set_add keys (opt_or (componentKey group) (componentId group)))
                     uniqueKeys groups)))"

definition scanFile1_ts :: "string comparator \<Rightarrow> page_node list \<Rightarrow> thrown + summary_data" where
  "scanFile1_ts cmp pages = scanFile_loop_ts cmp pages [] 0 []"

definition extractDetachedVariables_ts ::
  "variables_api \<Rightarrow> scene_node \<Rightarrow> page_node \<Rightarrow> detached_item list" where
  "extractDetachedVariables_ts vars node page =
     (case boundVariables node of
        None \<Rightarrow> []
      | Some boundVars \<Rightarrow>
          foldl (\<lambda>found (propertyName, b).
             case b of
               NoBinding \<Rightarrow> found
             | Binding Missing \<Rightarrow> found
             | Binding NonString \<Rightarrow> found
             | Binding (Str variableId) \<Rightarrow>
                 if variableId = [] then found
                 else if \<not> resolves vars variableId
                 then found @
                   [\<lparr>item_id = node_id node,
                     item_name =
                       str_or (node_name node) (node_type node) @ separator @ propertyName,
                     item_type = Variable,
                     item_pageId = page_id page,
                     item_pageName = page_name page,
                     metadata = Some [(''property'', propertyName)]\<rparr>]
                 else found)
            [] boundVars)"

definition getDetachedItemsForPage_ts ::
  "variables_api \<Rightarrow> page_node \<Rightarrow> thrown + detached_item list" where
  "getDetachedItemsForPage_ts vars page =
     (case findAll page (\<lambda>node. True) of
        Inl e \<Rightarrow> Inl e
      | Inr nodes \<Rightarrow>
          Inr (foldl (\<lambda>found node.
                 (let found1 =
                        (if node_type node = ''INSTANCE'' \<and> mainComponent node = MainNull
                         then found @
                           [\<lparr>item_id = node_id node,
                             item_name = str_or (node_name node) ''Unnamed Instance'',
                             item_type = Component,
                             item_pageId = page_id page,
                             item_pageName = page_name page,
                             metadata = None\<rparr>]
                         else found);
                      variableIssues = extractDetachedVariables_ts vars node page
                  in if length variableIssues > 0 then found1 @ variableIssues else found1))
               [] nodes))"

fun scanFile_loop2_ts ::
  "variables_api \<Rightarrow> page_node list \<Rightarrow> detached_page list \<Rightarrow> nat \<Rightarrow> nat \<Rightarrow>
   thrown + detached_summary" where
  "scanFile_loop2_ts vars [] breakdown totalComponents totalVariables =
     Inr \<lparr>totalDetachedComponents = totalComponents,
          totalDetachedVariables = totalVariables,
          d_pageBreakdown = breakdown\<rparr>"
| "scanFile_loop2_ts vars (page # rest) breakdown totalComponents totalVariables =
     (case getDetachedItemsForPage_ts vars page of
        Inl e \<Rightarrow> Inl e
      | Inr pageItems \<Rightarrow>
          if length pageItems > 0
          then scanFile_loop2_ts vars rest
                 (breakdown @
                    [\<lparr>d_pageId = page_id page, d_pageName = page_name page,
                      items = pageItems\<rparr>])
                 (totalComponents +
                    length (filter (\<lambda>item. item_type item = Component) pageItems))
                 (totalVariables +
                    length (filter (\<lambda>item. item_type item = Variable) pageItems))
          else scanFile_loop2_ts vars rest breakdown totalComponents totalVariables)"

definition scanFile2_ts :: "variables_api \<Rightarrow> page_node list \<Rightarrow> thrown + detached_summary" where
  "scanFile2_ts vars pages = scanFile_loop2_ts vars pages [] 0 0"

section \<open>Pipeline 1: the totals\<close>

lemma foldl_add_sum:
  "foldl (\<lambda>acc g. acc + f g) (a::nat) gs = a + sum_list (map f gs)"
  by (induction gs arbitrary: a) auto

lemma count_instances_sum:
  "count_instances gs = sum_list (map (\<lambda>g. length (instances g)) gs)"
  by (simp add: count_instances_def foldl_add_sum)

definition totals_ok :: "scan_vars \<Rightarrow> bool" where
  "totals_ok v \<longleftrightarrow>
     (\<forall>pe \<in> set (var_pageBreakdown v).
        instanceCount pe = sum_list (map (\<lambda>g. length (instances g)) (componentGroups pe))) \<and>
     var_totalInstances v = sum_list (map instanceCount (var_pageBreakdown v))"

lemma totals_ok_scan_page: "totals_ok v \<Longrightarrow> totals_ok (scan_page v page gs)"
  by (auto simp: totals_ok_def scan_page_def count_instances_sum)

lemma scan_pages_totals_ok:
  "scan_pages cmp ps v = Inr v' \<Longrightarrow> totals_ok v \<Longrightarrow> totals_ok v'"
  by (induction ps arbitrary: v) (auto split: sum.splits if_splits simp: totals_ok_scan_page)

lemma scanFile1_Inr:
  assumes "scanFile1 cmp pages = Inr s"
  obtains v where
    "scan_pages cmp pages
       \<lparr>var_pageBreakdown = [], var_totalInstances = 0, var_uniqueComponentKeys = []\<rparr> = Inr v"
    and "totalInstances s = var_totalInstances v"
    and "totalUniqueComponents s = length (var_uniqueComponentKeys v)"
    and "pageBreakdown s = var_pageBreakdown v"
  using assms by (auto simp: scanFile1_def split: sum.splits)

text \<open>
  C2.  Whenever pipeline 1's scan returns a summary, every page entry's instanceCount is
  the sum of the lengths of the instance lists of that entry's groups, and totalInstances
  is the sum of the instanceCount fields of the entries of pageBreakdown: both totals are
  computed from the groups that are emitted.
\<close>

theorem grouping_totals:
  assumes "scanFile1 cmp pages = Inr s"
  shows "(\<forall>pe \<in> set (pageBreakdown s).
            sum_list (map (\<lambda>g. length (instances g)) (componentGroups pe)) = instanceCount pe) \<and>
         sum_list (map instanceCount (pageBreakdown s)) = totalInstances s"
proof -
  let ?v0 = "\<lparr>var_pageBreakdown = [], var_totalInstances = 0, var_uniqueComponentKeys = []\<rparr>"
  from assms obtain v where v: "scan_pages cmp pages ?v0 = Inr v"
    and s: "totalInstances s = var_totalInstances v" "pageBreakdown s = var_pageBreakdown v"
    by (rule scanFile1_Inr)
  have "totals_ok ?v0" by (simp add: totals_ok_def)
  with v have "totals_ok v" by (rule scan_pages_totals_ok)
  with s show ?thesis by (simp add: totals_ok_def)
qed

section \<open>Pipeline 1: the unique definitions\<close>

definition group_key :: "component_group \<Rightarrow> string" where
  "group_key g = opt_or (componentKey g) (componentId g)"

definition node_keys :: "scene_node \<Rightarrow> string list" where
  "node_keys n =
     (if node_type n = ''INSTANCE''
      then (case mainComponent n of MainComponent main \<Rightarrow> [groupKey main] | _ \<Rightarrow> [])
      else [])"

definition page_keys :: "page_node \<Rightarrow> string list" where
  "page_keys page =
     (case descendants page of Inl e \<Rightarrow> [] | Inr ns \<Rightarrow> concat (map node_keys ns))"

definition file_keys :: "page_node list \<Rightarrow> string list" where
  "file_keys pages = concat (map page_keys pages)"

definition keyed :: "group_map \<Rightarrow> bool" where
  "keyed m \<longleftrightarrow> (\<forall>p \<in> set m. group_key (snd p) = fst p)"

lemma set_sort_insert: "set (sort_insert c x xs) = insert x (set xs)"
  by (induction xs) auto

lemma set_array_sort: "set (array_sort c xs) = set xs"
  by (induction xs) (auto simp: set_sort_insert)

lemma map_fst_map_push: "map fst (map_push m k u) = map fst m"
  by (induction m) auto

lemma fst_set_map_push: "fst ` set (map_push m k u) = fst ` set m"
  using map_fst_map_push [of m k u] by (metis set_map)

lemma keyed_Cons: "keyed ((k, g) # m) \<longleftrightarrow> group_key g = k \<and> keyed m"
  by (simp add: keyed_def)

lemma group_key_push: "group_key (g\<lparr>instances := us\<rparr>) = group_key g"
  by (simp add: group_key_def)

lemma keyed_map_push: "keyed m \<Longrightarrow> keyed (map_push m k u)"
proof (induction m)
  case Nil
  then show ?case by simp
next
  case (Cons p m)
  obtain k' g' where p: "p = (k', g')" by (cases p)
  with Cons show ?case by (simp add: keyed_Cons group_key_push)
qed

lemma map_set_fresh: "k \<notin> fst ` set m \<Longrightarrow> map_set m k g = m @ [(k, g)]"
  by (induction m) auto

lemma group_key_new_group: "group_key (new_group main) = groupKey main"
  by (simp add: group_key_def new_group_def groupKey_def opt_or_def key_or_undefined_def str_or_def)

lemma keyed_snoc: "keyed m \<Longrightarrow> group_key g = k \<Longrightarrow> keyed (m @ [(k, g)])"
  by (simp add: keyed_def)

lemma keyed_group_step: "keyed m \<Longrightarrow> keyed (group_step m n)"
  by (cases "mainComponent n")
     (simp_all add: group_step_def map_has_def map_set_fresh keyed_map_push keyed_snoc
        group_key_new_group)

lemma node_keys_component:
  "node_type n = ''INSTANCE'' \<Longrightarrow> mainComponent n = MainComponent main \<Longrightarrow>
   node_keys n = [groupKey main]"
  by (simp add: node_keys_def)

lemma node_keys_no_component:
  "mainComponent n = MainNull \<or> mainComponent n = MainUndefined \<Longrightarrow> node_keys n = []"
  by (auto simp: node_keys_def)

lemma keys_group_step:
  assumes "isInstance n"
  shows "fst ` set (group_step m n) = fst ` set m \<union> set (node_keys n)"
proof (cases "mainComponent n")
  case (MainComponent main)
  with assms have nk: "node_keys n = [groupKey main]"
    by (simp add: node_keys_component isInstance_def)
  show ?thesis
    by (auto simp: nk group_step_def MainComponent map_has_def map_set_fresh fst_set_map_push)
next
  case MainNull
  then show ?thesis by (simp add: node_keys_no_component group_step_def)
next
  case MainUndefined
  then show ?thesis by (simp add: node_keys_no_component group_step_def)
qed

lemma collect_groups_keys:
  "\<forall>n \<in> set ns. isInstance n \<Longrightarrow>
   fst ` set (collect_groups ns m) = fst ` set m \<union> set (concat (map node_keys ns))"
  by (induction ns arbitrary: m) (auto simp: keys_group_step)

lemma collect_groups_keyed: "keyed m \<Longrightarrow> keyed (collect_groups ns m)"
  by (induction ns arbitrary: m) (auto simp: keyed_group_step)

lemma keyed_image: "keyed m \<Longrightarrow> group_key ` snd ` set m = fst ` set m"
  by (force simp: keyed_def image_iff)

lemma node_keys_not_instance: "\<not> isInstance n \<Longrightarrow> node_keys n = []"
  by (simp add: node_keys_def isInstance_def)

lemma concat_node_keys_filter:
  "concat (map node_keys (filter isInstance ns)) = concat (map node_keys ns)"
  by (induction ns) (auto simp: node_keys_not_instance)

lemma group_key_sort_instances: "group_key (sort_instances cmp g) = group_key g"
  by (simp add: group_key_def sort_instances_def)

lemma getInstancesForPage_keys:
  assumes "getInstancesForPage cmp page = Inr gs"
  shows "group_key ` set gs = set (page_keys page)"
proof -
  from assms obtain ns where ns: "descendants page = Inr ns"
    and gs: "gs = map (sort_instances cmp)
               (array_sort (by_componentName cmp)
                  (map snd (collect_groups (filter isInstance ns) [])))"
    by (auto simp: getInstancesForPage_def findAll_def split: sum.splits)
  let ?m = "collect_groups (filter isInstance ns) []"
  have "keyed ?m" by (rule collect_groups_keyed) (simp add: keyed_def)
  then have "group_key ` snd ` set ?m = fst ` set ?m" by (rule keyed_image)
  also have "\<dots> = set (concat (map node_keys (filter isInstance ns)))"
    by (subst collect_groups_keys) auto
  also have "\<dots> = set (page_keys page)"
    by (simp only: page_keys_def ns concat_node_keys_filter sum.case)
  finally have "group_key ` snd ` set ?m = set (page_keys page)" .
  moreover have "group_key ` set gs = group_key ` snd ` set ?m"
    unfolding gs by (simp add: image_image group_key_sort_instances set_array_sort)
  ultimately show ?thesis by simp
qed

lemma set_add_keys: "set (add_keys ks gs) = set ks \<union> group_key ` set gs"
  unfolding add_keys_def
  by (induction gs arbitrary: ks) (auto simp: set_add_def group_key_def)

lemma distinct_add_keys: "distinct ks \<Longrightarrow> distinct (add_keys ks gs)"
  unfolding add_keys_def
  by (induction gs arbitrary: ks) (auto simp: set_add_def)

lemma scan_pages_keys:
  "scan_pages cmp ps v = Inr v' \<Longrightarrow> distinct (var_uniqueComponentKeys v) \<Longrightarrow>
   distinct (var_uniqueComponentKeys v') \<and>
   set (var_uniqueComponentKeys v') = set (var_uniqueComponentKeys v) \<union> set (file_keys ps)"
proof (induction ps arbitrary: v)
  case Nil
  then show ?case by (simp add: file_keys_def)
next
  case (Cons page rest)
  from Cons.prems(1) obtain gs where gs: "getInstancesForPage cmp page = Inr gs"
    by (auto split: sum.splits)
  have pk: "group_key ` set gs = set (page_keys page)"
    using gs by (rule getInstancesForPage_keys)
  show ?case
  proof (cases "gs = []")
    case True
    with Cons.prems gs have "scan_pages cmp rest v = Inr v'" by simp
    from Cons.IH [OF this Cons.prems(2)] pk True show ?thesis
      by (simp add: file_keys_def)
  next
    case False
    with Cons.prems gs have r: "scan_pages cmp rest (scan_page v page gs) = Inr v'" by simp
    have d: "distinct (var_uniqueComponentKeys (scan_page v page gs))"
      using Cons.prems(2) by (simp add: scan_page_def distinct_add_keys)
    from Cons.IH [OF r d] pk show ?thesis
      by (auto simp: file_keys_def scan_page_def set_add_keys)
  qed
qed

lemma mem_node_keys:
  "k \<in> set (node_keys n) \<longleftrightarrow>
     (\<exists>main. node_type n = ''INSTANCE'' \<and> mainComponent n = MainComponent main \<and>
           k = groupKey main)"
proof (cases "node_type n = ''INSTANCE''")
  case False
  then have "node_keys n = []" by (simp add: node_keys_def)
  with False show ?thesis by simp
next
  case True
  show ?thesis
  proof (cases "mainComponent n")
    case (MainComponent main)
    with True have "node_keys n = [groupKey main]" by (simp add: node_keys_component)
    with True MainComponent show ?thesis by simp
  next
    case MainNull
    then show ?thesis by (simp add: node_keys_no_component)
  next
    case MainUndefined
    then show ?thesis by (simp add: node_keys_no_component)
  qed
qed

lemma mem_page_keys:
  "k \<in> set (page_keys page) \<longleftrightarrow>
     (\<exists>ns n main. descendants page = Inr ns \<and> n \<in> set ns \<and>
           node_type n = ''INSTANCE'' \<and> mainComponent n = MainComponent main \<and>
           k = groupKey main)"
proof (cases "descendants page")
  case (Inl e)
  then show ?thesis by (simp add: page_keys_def)
next
  case (Inr ns)
  then have "k \<in> set (page_keys page) \<longleftrightarrow> (\<exists>n \<in> set ns. k \<in> set (node_keys n))"
    by (simp add: page_keys_def)
  also have "\<dots> \<longleftrightarrow> (\<exists>n main. n \<in> set ns \<and>
           node_type n = ''INSTANCE'' \<and> mainComponent n = MainComponent main \<and>
           k = groupKey main)"
    unfolding mem_node_keys by blast
  finally show ?thesis using Inr by simp
qed

lemma set_file_keys:
  "set (file_keys pages) =
     {k. \<exists>page ns n main. page \<in> set pages \<and> descendants page = Inr ns \<and> n \<in> set ns \<and>
           node_type n = ''INSTANCE'' \<and> mainComponent n = MainComponent main \<and>
           k = groupKey main}"
proof -
  have "k \<in> set (file_keys pages) \<longleftrightarrow> (\<exists>page \<in> set pages. k \<in> set (page_keys page))" for k
    by (simp add: file_keys_def)
  then show ?thesis unfolding mem_page_keys by blast
qed

text \<open>
  C1.  Whenever pipeline 1's scan returns a summary, totalUniqueComponents is the number of
  distinct group keys (the definition's key when it is not empty, otherwise the
  definition's node id) of the qualifying instances of all pages together: a definition
  used on two pages is counted once.
\<close>

theorem unique_components_count:
  assumes "scanFile1 cmp pages = Inr s"
  shows "totalUniqueComponents s =
           card {k. \<exists>page ns n main. page \<in> set pages \<and> descendants page = Inr ns \<and>
                   n \<in> set ns \<and> node_type n = ''INSTANCE'' \<and>
                   mainComponent n = MainComponent main \<and> k = groupKey main}"
proof -
  let ?v0 = "\<lparr>var_pageBreakdown = [], var_totalInstances = 0, var_uniqueComponentKeys = []\<rparr>"
  from assms obtain v where v: "scan_pages cmp pages ?v0 = Inr v"
    and s: "totalUniqueComponents s = length (var_uniqueComponentKeys v)"
    by (rule scanFile1_Inr)
  from scan_pages_keys [OF v] have "distinct (var_uniqueComponentKeys v)"
    and "set (var_uniqueComponentKeys v) = set (file_keys pages)" by simp_all
  with s have "totalUniqueComponents s = card (set (file_keys pages))"
    by (metis distinct_card)
  then show ?thesis by (simp only: set_file_keys)
qed

section \<open>Pipeline 1: the order of the output\<close>

lemma sorted_sort_insert:
  assumes "consistent c" and "sorted_wrt (\<lambda>a b. c a b \<le> 0) xs"
  shows "sorted_wrt (\<lambda>a b. c a b \<le> 0) (sort_insert c x xs)"
  using assms(2)
proof (induction xs)
  case Nil
  then show ?case by simp
next
  case (Cons y ys)
  from assms(1) have total: "c x y \<le> 0 \<or> c y x \<le> 0"
    and trans: "\<And>z. c x y \<le> 0 \<Longrightarrow> c y z \<le> 0 \<Longrightarrow> c x z \<le> 0"
    unfolding consistent_def by blast+
  show ?case
  proof (cases "c x y \<le> 0")
    case True
    with Cons.prems trans show ?thesis by auto
  next
    case False
    with total have "c y x \<le> 0" by simp
    with False Cons show ?thesis by (auto simp: set_sort_insert)
  qed
qed

lemma sorted_array_sort:
  "consistent c \<Longrightarrow> sorted_wrt (\<lambda>a b. c a b \<le> 0) (array_sort c xs)"
  by (induction xs) (simp_all add: sorted_sort_insert)

lemma consistent_by_componentName: "consistent cmp \<Longrightarrow> consistent (by_componentName cmp)"
  unfolding consistent_def by_componentName_def by blast

lemma consistent_by_usage_name: "consistent cmp \<Longrightarrow> consistent (by_usage_name cmp)"
  unfolding consistent_def by_usage_name_def by blast

lemma getInstancesForPage_sorted:
  assumes "consistent cmp" and "getInstancesForPage cmp page = Inr gs"
  shows "sorted_wrt (\<lambda>a b. cmp (componentName a) (componentName b) \<le> 0) gs"
    and "\<forall>g \<in> set gs. sorted_wrt (\<lambda>a b. cmp (usage_name a) (usage_name b) \<le> 0) (instances g)"
proof -
  from assms(2) obtain ns where
    gs: "gs = map (sort_instances cmp)
               (array_sort (by_componentName cmp)
                  (map snd (collect_groups (filter isInstance ns) [])))"
    by (auto simp: getInstancesForPage_def findAll_def split: sum.splits)
  have "sorted_wrt (\<lambda>a b. by_componentName cmp a b \<le> 0)
          (array_sort (by_componentName cmp) (map snd (collect_groups (filter isInstance ns) [])))"
    using assms(1) by (intro sorted_array_sort consistent_by_componentName)
  then show "sorted_wrt (\<lambda>a b. cmp (componentName a) (componentName b) \<le> 0) gs"
    unfolding gs by (simp add: sorted_wrt_map by_componentName_def sort_instances_def)
  have "sorted_wrt (\<lambda>a b. by_usage_name cmp a b \<le> 0) (instances (sort_instances cmp g))" for g
    using assms(1) by (simp add: sort_instances_def sorted_array_sort consistent_by_usage_name)
  then show "\<forall>g \<in> set gs. sorted_wrt (\<lambda>a b. cmp (usage_name a) (usage_name b) \<le> 0) (instances g)"
    unfolding gs by (auto simp: by_usage_name_def)
qed

definition page_sorted :: "string comparator \<Rightarrow> page_data \<Rightarrow> bool" where
  "page_sorted cmp pe \<longleftrightarrow>
     sorted_wrt (\<lambda>a b. cmp (componentName a) (componentName b) \<le> 0) (componentGroups pe) \<and>
     (\<forall>g \<in> set (componentGroups pe).
        sorted_wrt (\<lambda>a b. cmp (usage_name a) (usage_name b) \<le> 0) (instances g))"

lemma scan_pages_sorted:
  "consistent cmp \<Longrightarrow> scan_pages cmp ps v = Inr v' \<Longrightarrow>
   \<forall>pe \<in> set (var_pageBreakdown v). page_sorted cmp pe \<Longrightarrow>
   \<forall>pe \<in> set (var_pageBreakdown v'). page_sorted cmp pe"
proof (induction ps arbitrary: v)
  case Nil
  then show ?case by simp
next
  case (Cons page rest)
  from Cons.prems(2) obtain gs where gs: "getInstancesForPage cmp page = Inr gs"
    by (auto split: sum.splits)
  note srt = getInstancesForPage_sorted [OF Cons.prems(1) gs]
  show ?case
  proof (cases "gs = []")
    case True
    with Cons.prems gs have "scan_pages cmp rest v = Inr v'" by simp
    from Cons.IH [OF Cons.prems(1) this Cons.prems(3)] show ?thesis .
  next
    case False
    with Cons.prems gs have r: "scan_pages cmp rest (scan_page v page gs) = Inr v'" by simp
    have "\<forall>pe \<in> set (var_pageBreakdown (scan_page v page gs)). page_sorted cmp pe"
      using Cons.prems(3) srt by (auto simp: scan_page_def page_sorted_def)
    from Cons.IH [OF Cons.prems(1) r this] show ?thesis .
  qed
qed


definition scan_reply1 :: "string comparator \<Rightarrow> page_node list \<Rightarrow> summary_data ui_message" where
  "scan_reply1 cmp pages =
     (case scanFile1 cmp pages of
        Inr summary \<Rightarrow>
          (if length (pageBreakdown summary) = 0
           then Results \<lparr>totalInstances = 0, totalUniqueComponents = 0, pageBreakdown = []\<rparr>
           else Results summary)
      | Inl error \<Rightarrow> ErrorMessage (failure_message error))"

lemma posted_handleScanRequest1:
  "posted (handleScanRequest1 cmp h) = posted h @ [scan_reply1 cmp (root_children h)]"
  by (simp add: handleScanRequest1_def scan_reply1_def postMessage_def report_failure_def
      notify_def split: sum.splits)

lemma root_handleScanRequest1: "root_children (handleScanRequest1 cmp h) = root_children h"
  by (simp add: handleScanRequest1_def postMessage_def report_failure_def notify_def
      split: sum.splits)

text \<open>
  C5.  For a comparator that is a consistent total preorder (as localeCompare is; it is
  not assumed to be the order of the code units), every page entry of a summary returned
  by pipeline 1 has its groups in the order of the comparator on componentName, and
  every group has its instances in the order of the same comparator on their names.  A
  scan request leaves the document as it is, so a second request scans the same
  document and posts the same message again.
\<close>

theorem sorted_output:
  assumes "consistent cmp" and "scanFile1 cmp (root_children h) = Inr s"
  shows "(\<forall>pe \<in> set (pageBreakdown s).
            sorted_wrt (\<lambda>a b. cmp (componentName a) (componentName b) \<le> 0) (componentGroups pe) \<and>
            (\<forall>g \<in> set (componentGroups pe).
               sorted_wrt (\<lambda>a b. cmp (usage_name a) (usage_name b) \<le> 0) (instances g))) \<and>
         scanFile1 cmp (root_children (handleScanRequest1 cmp h)) = Inr s \<and>
         (\<exists>m. posted (handleScanRequest1 cmp (handleScanRequest1 cmp h)) = posted h @ [m, m])"
proof -
  let ?v0 = "\<lparr>var_pageBreakdown = [], var_totalInstances = 0, var_uniqueComponentKeys = []\<rparr>"
  from assms(2) obtain v where v: "scan_pages cmp (root_children h) ?v0 = Inr v"
    and s: "pageBreakdown s = var_pageBreakdown v"
    by (rule scanFile1_Inr)
  have "\<forall>pe \<in> set (var_pageBreakdown v). page_sorted cmp pe"
    by (rule scan_pages_sorted [OF assms(1) v]) simp
  with s have "\<forall>pe \<in> set (pageBreakdown s). page_sorted cmp pe" by simp
  moreover have "scanFile1 cmp (root_children (handleScanRequest1 cmp h)) = Inr s"
    using assms(2) by (simp add: root_handleScanRequest1)
  moreover have "posted (handleScanRequest1 cmp (handleScanRequest1 cmp h)) =
      posted h @ [scan_reply1 cmp (root_children h), scan_reply1 cmp (root_children h)]"
    by (simp add: posted_handleScanRequest1 root_handleScanRequest1)
  ultimately show ?thesis unfolding page_sorted_def by blast
qed

section \<open>Pipeline 2: the items of a page\<close>

text \<open>
  The bindings that are reported: the entry is an object, its id is a string that is not
  empty, and the id does not resolve.
\<close>

definition reported :: "variables_api \<Rightarrow> binding \<Rightarrow> bool" where
  "reported vars b =
     (case b of
        NoBinding \<Rightarrow> False
      | Binding idf \<Rightarrow> (case idf of Str v \<Rightarrow> v \<noteq> [] \<and> \<not> resolves vars v | _ \<Rightarrow> False))"

definition bindings_of :: "scene_node \<Rightarrow> (string \<times> binding) list" where
  "bindings_of node = (case boundVariables node of None \<Rightarrow> [] | Some boundVars \<Rightarrow> boundVars)"

text \<open>
  What one node contributes, in the order of discovery: the component item when the node
  is an instance whose mainComponent is null, then one variable item for each reported
  binding, in the order of the keys.
\<close>

definition node_items :: "variables_api \<Rightarrow> page_node \<Rightarrow> scene_node \<Rightarrow> detached_item list" where
  "node_items vars page node =
     (if node_type node = ''INSTANCE'' \<and> mainComponent node = MainNull
      then [component_item node page] else []) @
     map (\<lambda>(propertyName, b). variable_item node page propertyName)
       (filter (\<lambda>(propertyName, b). reported vars b) (bindings_of node))"

lemma variable_loop_eq:
  "variable_loop vars node page bs found =
     found @ map (\<lambda>(propertyName, b). variable_item node page propertyName)
               (filter (\<lambda>(propertyName, b). reported vars b) bs)"
proof (induction bs arbitrary: found)
  case Nil
  then show ?case by simp
next
  case (Cons pb bs)
  obtain p b where pb: "pb = (p, b)" by (cases pb)
  show ?case
  proof (cases b)
    case NoBinding
    with pb Cons show ?thesis by (simp add: reported_def)
  next
    case (Binding idf)
    with pb Cons show ?thesis by (cases idf) (simp_all add: reported_def)
  qed
qed

lemma extractDetachedVariables_eq:
  "extractDetachedVariables vars node page =
     map (\<lambda>(propertyName, b). variable_item node page propertyName)
       (filter (\<lambda>(propertyName, b). reported vars b) (bindings_of node))"
  by (cases "boundVariables node")
     (simp_all add: extractDetachedVariables_def bindings_of_def variable_loop_eq)

lemma node_loop_eq:
  "node_loop vars page nodes found = found @ concat (map (node_items vars page) nodes)"
proof (induction nodes arbitrary: found)
  case Nil
  then show ?case by simp
next
  case (Cons node rest)
  have "(if isDetachedComponent node then found @ [component_item node page] else found) =
        found @ (if node_type node = ''INSTANCE'' \<and> mainComponent node = MainNull
                 then [component_item node page] else [])"
    by (simp add: isDetachedComponent_def isInstanceNode_def)
  moreover have "(if length xs > 0 then ys @ xs else ys) = ys @ xs" for xs ys :: "detached_item list"
    by simp
  ultimately show ?case
    using Cons.IH by (simp add: Let_def node_items_def extractDetachedVariables_eq del: length_greater_0_conv)
qed

lemma getDetachedItemsForPage_eq:
  "descendants page = Inr nodes \<Longrightarrow>
   getDetachedItemsForPage vars page = Inr (concat (map (node_items vars page) nodes))"
  by (simp add: getDetachedItemsForPage_def findAll_def node_loop_eq)

lemma getDetachedItemsForPage_Inr:
  "getDetachedItemsForPage vars page = Inr its \<Longrightarrow>
   \<exists>nodes. descendants page = Inr nodes \<and> its = concat (map (node_items vars page) nodes)"
  by (cases "descendants page")
     (auto simp: getDetachedItemsForPage_def findAll_def node_loop_eq)

lemma scan_pages2_entries:
  "scan_pages2 vars ps v = Inr v' \<Longrightarrow>
   \<exists>added. d_pageBreakdown v' = d_pageBreakdown v @ added \<and>
     (\<forall>pe \<in> set added. \<exists>page \<in> set ps. \<exists>nodes.
        descendants page = Inr nodes \<and> d_pageId pe = page_id page \<and>
        d_pageName pe = page_name page \<and>
        items pe = concat (map (node_items vars page) nodes))"
proof (induction ps arbitrary: v)
  case Nil
  then show ?case by simp
next
  case (Cons page rest)
  from Cons.prems obtain its where its: "getDetachedItemsForPage vars page = Inr its"
    by (auto split: sum.splits)
  then obtain nodes where nodes: "descendants page = Inr nodes"
    "its = concat (map (node_items vars page) nodes)"
    using getDetachedItemsForPage_Inr by blast
  show ?case
  proof (cases "length its > 0")
    case False
    with Cons.prems its have "scan_pages2 vars rest v = Inr v'" by simp
    from Cons.IH [OF this] show ?thesis by auto
  next
    case True
    with Cons.prems its have "scan_pages2 vars rest (add_page v page its) = Inr v'" by simp
    from Cons.IH [OF this] obtain added where
      a: "d_pageBreakdown v' = d_pageBreakdown (add_page v page its) @ added"
      and b: "\<forall>pe \<in> set added. \<exists>page \<in> set rest. \<exists>nodes.
        descendants page = Inr nodes \<and> d_pageId pe = page_id page \<and>
        d_pageName pe = page_name page \<and>
        items pe = concat (map (node_items vars page) nodes)" by blast
    let ?e = "\<lparr>d_pageId = page_id page, d_pageName = page_name page, items = its\<rparr>"
    from a have "d_pageBreakdown v' = d_pageBreakdown v @ (?e # added)"
      by (simp add: add_page_def)
    moreover have "\<forall>pe \<in> set (?e # added). \<exists>page' \<in> set (page # rest). \<exists>nodes.
        descendants page' = Inr nodes \<and> d_pageId pe = page_id page' \<and>
        d_pageName pe = page_name page' \<and>
        items pe = concat (map (node_items vars page') nodes)"
      using b nodes by auto
    ultimately show ?thesis by blast
  qed
qed

text \<open>
  C6.  Pipeline 2 does not sort: in a summary it returns, the items of every page entry
  are the contributions of the page's nodes in traversal order, and within a node's
  contribution the component item comes first and is followed by the variable items in
  the enumeration order of the node's bound-property keys.
\<close>

theorem discovery_order:
  assumes "scanFile2 vars pages = Inr s"
  shows "\<forall>pe \<in> set (d_pageBreakdown s). \<exists>page \<in> set pages. \<exists>nodes.
           descendants page = Inr nodes \<and> d_pageId pe = page_id page \<and>
           d_pageName pe = page_name page \<and>
           items pe = concat (map (node_items vars page) nodes)"
  using scan_pages2_entries [OF assms [unfolded scanFile2_def]] by auto

section \<open>Pipeline 2: broken bindings and orphaned instances\<close>

lemma reported_simps:
  "reported vars (Binding (Str v)) \<longleftrightarrow> v \<noteq> [] \<and> \<not> resolves vars v"
  "\<not> reported vars NoBinding"
  "\<not> reported vars (Binding Missing)"
  "\<not> reported vars (Binding NonString)"
  by (simp_all add: reported_def)

lemma filter_component_node_items:
  "filter (\<lambda>item. item_type item = Component) (node_items vars page node) =
     (if node_type node = ''INSTANCE'' \<and> mainComponent node = MainNull
      then [component_item node page] else [])"
proof -
  have "filter (\<lambda>item. item_type item = Component)
          (map (\<lambda>(propertyName, b). variable_item node page propertyName) bs) = []" for bs
    by (induction bs) (auto simp: variable_item_def)
  then show ?thesis by (simp add: node_items_def component_item_def)
qed

lemma filter_variable_node_items:
  "filter (\<lambda>item. item_type item = Variable) (node_items vars page node) =
     extractDetachedVariables vars node page"
proof -
  have "filter (\<lambda>item. item_type item = Variable)
          (map (\<lambda>(propertyName, b). variable_item node page propertyName) bs) =
        map (\<lambda>(propertyName, b). variable_item node page propertyName) bs" for bs
    by (induction bs) (auto simp: variable_item_def)
  then show ?thesis by (simp add: node_items_def component_item_def extractDetachedVariables_eq)
qed

lemma filter_component_page:
  "filter (\<lambda>item. item_type item = Component) (concat (map (node_items vars page) nodes)) =
     map (\<lambda>node. component_item node page)
       (filter (\<lambda>node. node_type node = ''INSTANCE'' \<and> mainComponent node = MainNull) nodes)"
  by (induction nodes) (simp_all add: filter_component_node_items)

lemma filter_variable_page:
  "filter (\<lambda>item. item_type item = Variable) (concat (map (node_items vars page) nodes)) =
     concat (map (\<lambda>node. extractDetachedVariables vars node page) nodes)"
  by (induction nodes) (simp_all add: filter_variable_node_items)

lemma variable_item_fields:
  "(\<lambda>(propertyName, b). variable_item node page propertyName) =
     (\<lambda>(propertyName::string, b::binding).
            \<lparr>item_id = node_id node,
             item_name = str_or (node_name node) (node_type node) @
                         [CHR '' '', CHR 0xB7, CHR '' ''] @ propertyName,
             item_type = Variable,
             item_pageId = page_id page,
             item_pageName = page_name page,
             metadata = Some [(''property'', propertyName)]\<rparr>)"
  by (simp add: variable_item_def separator_def)

text \<open>
  C4, in the form that holds of the code.  The variable items of a node are, in the order of the keys, one item
  for each binding that is an object whose id is a string that is not empty and does not
  resolve; the item carries the node's id, the node's name (its type tag when the name
  is empty) joined to the property name by a space, a middle dot and a space, the type
  tag for variables, the page, and the metadata holding the property name.  A binding
  that is absent, or whose id is missing, is not a string or is the empty string, gives
  no item whatever the host's variables are.
\<close>

theorem broken_binding_items:
  "extractDetachedVariables vars node page =
     map (\<lambda>(propertyName, b).
            \<lparr>item_id = node_id node,
             item_name = str_or (node_name node) (node_type node) @
                         [CHR '' '', CHR 0xB7, CHR '' ''] @ propertyName,
             item_type = Variable,
             item_pageId = page_id page,
             item_pageName = page_name page,
             metadata = Some [(''property'', propertyName)]\<rparr>)
       (filter (\<lambda>(propertyName, b). reported vars b) (bindings_of node)) \<and>
   (reported vars (Binding (Str v)) \<longleftrightarrow> v \<noteq> [] \<and> \<not> resolves vars v) \<and>
   \<not> reported vars NoBinding \<and> \<not> reported vars (Binding Missing) \<and>
   \<not> reported vars (Binding NonString) \<and> \<not> reported vars (Binding (Str []))"
proof -
  have "extractDetachedVariables vars node page =
     map (\<lambda>(propertyName, b). variable_item node page propertyName)
       (filter (\<lambda>(propertyName, b). reported vars b) (bindings_of node))"
    by (rule extractDetachedVariables_eq)
  then show ?thesis by (simp only: variable_item_fields reported_simps) simp
qed

lemma collect_groups_no_component:
  "\<forall>n \<in> set ns. \<forall>main. mainComponent n \<noteq> MainComponent main \<Longrightarrow> collect_groups ns m = m"
proof (induction ns arbitrary: m)
  case Nil
  then show ?case by simp
next
  case (Cons n ns)
  then have "group_step m n = m"
    by (cases "mainComponent n") (simp_all add: group_step_def)
  with Cons show ?case by simp
qed

lemma getInstancesForPage_orphans:
  assumes "descendants page = Inr nodes"
    and "\<forall>n \<in> set nodes. node_type n = ''INSTANCE'' \<longrightarrow> mainComponent n = MainNull"
  shows "getInstancesForPage cmp page = Inr []"
proof -
  have "\<forall>n \<in> set (filter isInstance nodes). \<forall>main. mainComponent n \<noteq> MainComponent main"
    using assms(2) by (auto simp: isInstance_def)
  then have "collect_groups (filter isInstance nodes) [] = []"
    by (rule collect_groups_no_component)
  with assms(1) show ?thesis by (simp add: getInstancesForPage_def findAll_def)
qed

lemma scan_pages_append:
  "scan_pages cmp (xs @ ys) v =
     (case scan_pages cmp xs v of Inl e \<Rightarrow> Inl e | Inr v' \<Rightarrow> scan_pages cmp ys v')"
  by (induction xs arbitrary: v) (auto split: sum.splits)

lemma scan_pages_skip:
  "getInstancesForPage cmp page = Inr [] \<Longrightarrow>
   scan_pages cmp (xs @ page # ys) v = scan_pages cmp (xs @ ys) v"
  by (simp add: scan_pages_append split: sum.splits)

lemma scan_pages2_grows:
  "scan_pages2 vars ps v = Inr v' \<Longrightarrow> set (d_pageBreakdown v) \<subseteq> set (d_pageBreakdown v')"
  using scan_pages2_entries [of vars ps v v'] by auto

lemma scan_pages2_member:
  "scan_pages2 vars ps v = Inr v' \<Longrightarrow> page \<in> set ps \<Longrightarrow>
   getDetachedItemsForPage vars page = Inr its \<Longrightarrow> its \<noteq> [] \<Longrightarrow>
   \<lparr>d_pageId = page_id page, d_pageName = page_name page, items = its\<rparr>
     \<in> set (d_pageBreakdown v')"
proof (induction ps arbitrary: v)
  case Nil
  then show ?case by simp
next
  case (Cons p rest)
  from Cons.prems(1) obtain pits where pits: "getDetachedItemsForPage vars p = Inr pits"
    by (auto split: sum.splits)
  let ?v1 = "if length pits > 0 then add_page v p pits else v"
  from Cons.prems(1) pits have r: "scan_pages2 vars rest ?v1 = Inr v'"
    by (simp split: if_splits)
  show ?case
  proof (cases "page = p")
    case True
    with Cons.prems(3,4) pits have "pits = its" "length pits > 0" by simp_all
    then have "\<lparr>d_pageId = page_id page, d_pageName = page_name page, items = its\<rparr>
        \<in> set (d_pageBreakdown ?v1)"
      using True by (simp add: add_page_def)
    with scan_pages2_grows [OF r] show ?thesis by blast
  next
    case False
    with Cons.prems(2) have "page \<in> set rest" by simp
    from Cons.IH [OF r this Cons.prems(3,4)] show ?thesis .
  qed
qed

text \<open>
  C3.  Take a page all of whose instance nodes have a mainComponent that is null.
  Pipeline 1 scans a document holding the page as it scans the document without it.
  Pipeline 2 finds on the page exactly one component item for each instance node, in
  traversal order, and when the page has such an instance every summary that pipeline 2
  returns for a document holding the page has the page's entry.  A node counts as a
  detached component exactly when its type tag is INSTANCE and its mainComponent is
  null; an undefined mainComponent does not count.
\<close>

theorem orphaned_page:
  assumes "descendants page = Inr nodes"
    and "\<forall>n \<in> set nodes. node_type n = ''INSTANCE'' \<longrightarrow> mainComponent n = MainNull"
  shows "scanFile1 cmp (before @ page # after) = scanFile1 cmp (before @ after) \<and>
         (\<exists>its. getDetachedItemsForPage vars page = Inr its \<and>
            filter (\<lambda>item. item_type item = Component) its =
              map (\<lambda>node. component_item node page)
                (filter (\<lambda>node. node_type node = ''INSTANCE'') nodes) \<and>
            ((\<exists>n \<in> set nodes. node_type n = ''INSTANCE'') \<longrightarrow>
             (\<forall>s. scanFile2 vars (before @ page # after) = Inr s \<longrightarrow>
                \<lparr>d_pageId = page_id page, d_pageName = page_name page, items = its\<rparr>
                  \<in> set (d_pageBreakdown s)))) \<and>
         (\<forall>node. isDetachedComponent node \<longleftrightarrow>
            node_type node = ''INSTANCE'' \<and> mainComponent node = MainNull) \<and>
         (\<forall>node. mainComponent node = MainUndefined \<longrightarrow> \<not> isDetachedComponent node)"
proof -
  have p1: "scanFile1 cmp (before @ page # after) = scanFile1 cmp (before @ after)"
    using getInstancesForPage_orphans [OF assms(1,2)]
    by (simp add: scanFile1_def scan_pages_skip)
  let ?its = "concat (map (node_items vars page) nodes)"
  have its: "getDetachedItemsForPage vars page = Inr ?its"
    using assms(1) by (rule getDetachedItemsForPage_eq)
  have same: "filter (\<lambda>node. node_type node = ''INSTANCE'' \<and> mainComponent node = MainNull) nodes =
        filter (\<lambda>node. node_type node = ''INSTANCE'') nodes"
    using assms(2) by (intro filter_cong) auto
  have comps: "filter (\<lambda>item. item_type item = Component) ?its =
      map (\<lambda>node. component_item node page) (filter (\<lambda>node. node_type node = ''INSTANCE'') nodes)"
    by (simp only: filter_component_page same)
  have mem: "\<lparr>d_pageId = page_id page, d_pageName = page_name page, items = ?its\<rparr>
                 \<in> set (d_pageBreakdown s)"
    if some: "\<exists>n \<in> set nodes. node_type n = ''INSTANCE''"
      and scan: "scanFile2 vars (before @ page # after) = Inr s" for s
  proof -
    from some have "filter (\<lambda>node. node_type node = ''INSTANCE'') nodes \<noteq> []"
      by (simp add: filter_empty_conv)
    with comps have "filter (\<lambda>item. item_type item = Component) ?its \<noteq> []" by simp
    then have ne: "?its \<noteq> []" by (metis filter.simps(1))
    show ?thesis
      using scan its ne unfolding scanFile2_def
      by (intro scan_pages2_member [where page = page and its = ?its]) auto
  qed
  have q: "isDetachedComponent node \<longleftrightarrow>
            node_type node = ''INSTANCE'' \<and> mainComponent node = MainNull" for node
    by (simp add: isDetachedComponent_def isInstanceNode_def)
  from p1 its comps mem q show ?thesis by auto
qed

section \<open>The dispatcher: empty scans, navigation and failures\<close>

text \<open>The two requests of the panel: \<^verbatim>\<open>{ type: 'scan' }\<close> and \<^verbatim>\<open>{ type: 'navigate', nodeId }\<close>.\<close>

definition scan_request :: plugin_message where
  "scan_request = Request (Str ''scan'') Missing"

definition navigate_request :: "string \<Rightarrow> plugin_message" where
  "navigate_request nodeId = Request (Str ''navigate'') (Str nodeId)"

lemma onmessage_scan: "onmessage handler scan_request h = handler h"
  by (simp add: onmessage_def scan_request_def)

lemma onmessage_navigate: "onmessage handler (navigate_request i) h = focusNode i h"
  by (simp add: onmessage_def navigate_request_def)

lemma scanFile1_no_pages:
  "scanFile1 cmp [] = Inr \<lparr>totalInstances = 0, totalUniqueComponents = 0, pageBreakdown = []\<rparr>"
  by (simp add: scanFile1_def)

lemma scanFile2_no_pages:
  "scanFile2 vars [] =
     Inr \<lparr>totalDetachedComponents = 0, totalDetachedVariables = 0, d_pageBreakdown = []\<rparr>"
  by (simp add: scanFile2_def)

lemma handleScanRequest1_empty:
  "scanFile1 cmp (root_children h) = Inr s \<Longrightarrow> pageBreakdown s = [] \<Longrightarrow>
   handleScanRequest1 cmp h =
     h\<lparr>posted := posted h @
        [Results \<lparr>totalInstances = 0, totalUniqueComponents = 0, pageBreakdown = []\<rparr>]\<rparr>"
  by (simp add: handleScanRequest1_def postMessage_def)

lemma handleScanRequest2_empty:
  "scanFile2 vars (root_children h) = Inr s \<Longrightarrow> d_pageBreakdown s = [] \<Longrightarrow>
   handleScanRequest2 vars h =
     h\<lparr>posted := posted h @
        [Results \<lparr>totalDetachedComponents = 0, totalDetachedVariables = 0,
                  d_pageBreakdown = []\<rparr>]\<rparr>"
  by (simp add: handleScanRequest2_def postMessage_def)

text \<open>
  C7.  In either pipeline, when the scan returns a summary whose pageBreakdown is empty,
  and in particular when the document has no pages, the only effect of the scan request
  is one results message whose data has both totals zero and an empty pageBreakdown; no
  notice is shown and no error message is sent.
\<close>

theorem empty_scan_reply:
  "(scanFile1 cmp (root_children h1) = Inr s1 \<and> pageBreakdown s1 = [] \<longrightarrow>
      onmessage1 cmp scan_request h1 =
        h1\<lparr>posted := posted h1 @
          [Results \<lparr>totalInstances = 0, totalUniqueComponents = 0, pageBreakdown = []\<rparr>]\<rparr>) \<and>
   (root_children h1 = [] \<longrightarrow>
      onmessage1 cmp scan_request h1 =
        h1\<lparr>posted := posted h1 @
          [Results \<lparr>totalInstances = 0, totalUniqueComponents = 0, pageBreakdown = []\<rparr>]\<rparr>) \<and>
   (scanFile2 vars (root_children h2) = Inr s2 \<and> d_pageBreakdown s2 = [] \<longrightarrow>
      onmessage2 vars scan_request h2 =
        h2\<lparr>posted := posted h2 @
          [Results \<lparr>totalDetachedComponents = 0, totalDetachedVariables = 0,
                    d_pageBreakdown = []\<rparr>]\<rparr>) \<and>
   (root_children h2 = [] \<longrightarrow>
      onmessage2 vars scan_request h2 =
        h2\<lparr>posted := posted h2 @
          [Results \<lparr>totalDetachedComponents = 0, totalDetachedVariables = 0,
                    d_pageBreakdown = []\<rparr>]\<rparr>)"
proof -
  have a: "root_children h1 = [] \<Longrightarrow>
      scanFile1 cmp (root_children h1) =
        Inr \<lparr>totalInstances = 0, totalUniqueComponents = 0, pageBreakdown = []\<rparr>"
    by (simp add: scanFile1_no_pages)
  have b: "root_children h2 = [] \<Longrightarrow>
      scanFile2 vars (root_children h2) =
        Inr \<lparr>totalDetachedComponents = 0, totalDetachedVariables = 0, d_pageBreakdown = []\<rparr>"
    by (simp add: scanFile2_no_pages)
  show ?thesis
    unfolding onmessage1_def onmessage2_def onmessage_scan
    using handleScanRequest1_empty [of cmp h1] handleScanRequest2_empty [of vars h2] a b
    by auto
qed

text \<open>The nodes above a node, nearest first.\<close>

fun chain :: "parent_ref \<Rightarrow> base_node list" where
  "chain NoParentProperty = []"
| "chain ParentNull = []"
| "chain (Parent (BaseNode i t p)) = BaseNode i t p # chain p"

definition ancestors :: "base_node \<Rightarrow> base_node list" where
  "ancestors node = chain (base_parent node)"

lemma page_above_find: "page_above r = find (\<lambda>a. base_type a = ''PAGE'') (chain r)"
  by (induction r rule: page_above.induct) simp_all

lemma resolvePage_find:
  "resolvePage node = find (\<lambda>a. base_type a = ''PAGE'') (ancestors node)"
  by (simp add: resolvePage_def ancestors_def page_above_find)

text \<open>
  C8.  A navigate request whose node id resolves to no node adds one notice and one error
  message and changes nothing else: the active page and the viewport log stay as they
  are.  When the id resolves, the node is brought into view in either case, and the
  active page changes only when some node above it has the type tag PAGE, namely to the
  nearest such node.
\<close>

theorem navigate_request_effect:
  "(getNodeById h i = None \<longrightarrow>
      onmessage handler (navigate_request i) h =
        h\<lparr>notices := notices h @ [(''Target node not found. It may have been deleted.'', 2000)],
          posted := posted h @ [ErrorMessage ''Node not found or removed.'']\<rparr>) \<and>
   (getNodeById h i = Some node \<longrightarrow>
      onmessage handler (navigate_request i) h =
        (case find (\<lambda>a. base_type a = ''PAGE'') (ancestors node) of
           None \<Rightarrow> h\<lparr>scrolled := scrolled h @ [[node]]\<rparr>
         | Some page \<Rightarrow> h\<lparr>currentPage := page, scrolled := scrolled h @ [[node]]\<rparr>))"
  by (auto simp: onmessage_navigate focusNode_def postMessage_def notify_def resolvePage_find
      split: option.splits)

lemma onmessage1_failure:
  "scanFile1 cmp (root_children h) = Inl e \<Longrightarrow>
   onmessage1 cmp scan_request h =
     h\<lparr>notices := notices h @ [(failure_message e, 2000)],
       posted := posted h @ [ErrorMessage (failure_message e)]\<rparr>"
  by (simp add: onmessage1_def onmessage_scan handleScanRequest1_def report_failure_def
      postMessage_def notify_def)

lemma onmessage2_failure:
  "scanFile2 vars (root_children h) = Inl e \<Longrightarrow>
   onmessage2 vars scan_request h =
     h\<lparr>notices := notices h @ [(failure_message e, 2000)],
       posted := posted h @ [ErrorMessage (failure_message e)]\<rparr>"
  by (simp add: onmessage2_def onmessage_scan handleScanRequest2_def report_failure_def
      postMessage_def notify_def)

lemma root_onmessage1_scan:
  "root_children (onmessage1 cmp scan_request h) = root_children h"
  by (simp add: onmessage1_def onmessage_scan root_handleScanRequest1)

lemma root_onmessage2_scan:
  "root_children (onmessage2 vars scan_request h) = root_children h"
  by (simp add: onmessage2_def onmessage_scan handleScanRequest2_def postMessage_def
      report_failure_def notify_def split: sum.splits)

text \<open>
  C9.  In either pipeline, when the scan throws, the scan request ends with exactly one
  notice and one error message added, both carrying the message of the thrown Error, or
  the fixed text when the thrown value is not an Error; the document is left as it is and
  the next request is handled from the resulting state (a second scan request reports
  the failure again).
\<close>

theorem scan_failure_reported:
  "(scanFile1 cmp (root_children h1) = Inl e1 \<longrightarrow>
      onmessage1 cmp scan_request h1 =
        h1\<lparr>notices := notices h1 @ [(failure_message e1, 2000)],
           posted := posted h1 @ [ErrorMessage (failure_message e1)]\<rparr> \<and>
      posted (onmessage1 cmp scan_request (onmessage1 cmp scan_request h1)) =
        posted h1 @ [ErrorMessage (failure_message e1), ErrorMessage (failure_message e1)]) \<and>
   (scanFile2 vars (root_children h2) = Inl e2 \<longrightarrow>
      onmessage2 vars scan_request h2 =
        h2\<lparr>notices := notices h2 @ [(failure_message e2, 2000)],
           posted := posted h2 @ [ErrorMessage (failure_message e2)]\<rparr> \<and>
      posted (onmessage2 vars scan_request (onmessage2 vars scan_request h2)) =
        posted h2 @ [ErrorMessage (failure_message e2), ErrorMessage (failure_message e2)]) \<and>
   failure_message (ThrownError m) = m \<and>
   failure_message ThrownOther = ''Unexpected error during scan''"
proof -
  have "posted (onmessage1 cmp scan_request (onmessage1 cmp scan_request h1)) =
        posted h1 @ [ErrorMessage (failure_message e1), ErrorMessage (failure_message e1)]"
    if f: "scanFile1 cmp (root_children h1) = Inl e1"
  proof -
    from f have "scanFile1 cmp (root_children (onmessage1 cmp scan_request h1)) = Inl e1"
      by (simp add: root_onmessage1_scan)
    from onmessage1_failure [OF this] onmessage1_failure [OF f] show ?thesis by simp
  qed
  moreover have "posted (onmessage2 vars scan_request (onmessage2 vars scan_request h2)) =
        posted h2 @ [ErrorMessage (failure_message e2), ErrorMessage (failure_message e2)]"
    if f: "scanFile2 vars (root_children h2) = Inl e2"
  proof -
    from f have "scanFile2 vars (root_children (onmessage2 vars scan_request h2)) = Inl e2"
      by (simp add: root_onmessage2_scan)
    from onmessage2_failure [OF this] onmessage2_failure [OF f] show ?thesis by simp
  qed
  ultimately show ?thesis
    using onmessage1_failure [of cmp h1 e1] onmessage2_failure [of vars h2 e2]
    by (simp add: failure_message_def)
qed

section \<open>The compiled code and its source\<close>

lemma collect_groups_foldl: "collect_groups ns m = foldl group_step m ns"
  by (induction ns arbitrary: m) simp_all

lemma group_step_ts:
  "group_step =
     (\<lambda>groups instance.
        case mainComponent instance of
          MainUndefined \<Rightarrow> groups
        | MainNull \<Rightarrow> groups
        | MainComponent main \<Rightarrow>
            (let mainId = comp_id main;
                 key = str_or (comp_key main) mainId;
                 groups' =
                   (if \<not> map_has groups key
                    then map_set groups key
                           \<lparr>componentId = mainId,
                            componentKey = key_or_undefined (comp_key main),
                            componentName = str_or (comp_name main) ''Unnamed Component'',
                            instances = []\<rparr>
                    else groups)
             in map_push groups' key
                  \<lparr>usage_id = node_id instance,
                   usage_name = str_or (node_name instance) ''Instance'',
                   usage_componentId = mainId,
                   usage_componentKey = key_or_undefined (comp_key main),
                   usage_componentName = str_or (comp_name main) ''Unnamed Component''\<rparr>))"
  by (intro ext)
     (simp add: group_step_def groupKey_def new_group_def usage_of_def Let_def
        split: main_ref.splits)

lemma getInstancesForPage_ts_eq: "getInstancesForPage_ts cmp page = getInstancesForPage cmp page"
proof -
  have a: "(\<lambda>node. node_type node = ''INSTANCE'') = isInstance"
    by (simp add: isInstance_def fun_eq_iff)
  have b: "(\<lambda>a b. cmp (componentName a) (componentName b)) = by_componentName cmp"
    by (simp add: by_componentName_def fun_eq_iff)
  have c: "(\<lambda>group. group\<lparr>instances :=
              array_sort (\<lambda>a b. cmp (usage_name a) (usage_name b)) (instances group)\<rparr>) =
           sort_instances cmp"
  proof -
    have "(\<lambda>a b. cmp (usage_name a) (usage_name b)) = by_usage_name cmp"
      by (simp add: by_usage_name_def fun_eq_iff)
    then show ?thesis by (simp add: sort_instances_def fun_eq_iff)
  qed
  show ?thesis
    unfolding getInstancesForPage_ts_def getInstancesForPage_def a b c
      collect_groups_foldl group_step_ts [symmetric] ..
qed

lemma scanFile_loop_ts_eq:
  "scanFile_loop_ts cmp ps pb ti uk =
     (case scan_pages cmp ps
             \<lparr>var_pageBreakdown = pb, var_totalInstances = ti, var_uniqueComponentKeys = uk\<rparr> of
        Inl e \<Rightarrow> Inl e
      | Inr v \<Rightarrow>
          Inr \<lparr>totalInstances = var_totalInstances v,
               totalUniqueComponents = length (var_uniqueComponentKeys v),
               pageBreakdown = var_pageBreakdown v\<rparr>)"
proof (induction ps arbitrary: pb ti uk)
  case Nil
  then show ?case by simp
next
  case (Cons page rest)
  show ?case
  proof (cases "getInstancesForPage cmp page")
    case (Inl e)
    then show ?thesis by (simp add: getInstancesForPage_ts_eq)
  next
    case (Inr gs)
    then show ?thesis
      by (simp add: getInstancesForPage_ts_eq Cons.IH scan_page_def count_instances_def
          add_keys_def Let_def)
  qed
qed

lemma variable_loop_foldl:
  "variable_loop vars node page bs found =
     foldl (\<lambda>found (propertyName, b).
             case b of
               NoBinding \<Rightarrow> found
             | Binding Missing \<Rightarrow> found
             | Binding NonString \<Rightarrow> found
             | Binding (Str variableId) \<Rightarrow>
                 if variableId = [] then found
                 else if \<not> resolves vars variableId
                 then found @
                   [\<lparr>item_id = node_id node,
                     item_name =
                       str_or (node_name node) (node_type node) @ separator @ propertyName,
                     item_type = Variable,
                     item_pageId = page_id page,
                     item_pageName = page_name page,
                     metadata = Some [(''property'', propertyName)]\<rparr>]
                 else found)
       found bs"
proof (induction bs arbitrary: found)
  case Nil
  then show ?case by simp
next
  case (Cons pb bs)
  obtain p b where pb: "pb = (p, b)" by (cases pb)
  show ?case
  proof (cases b)
    case NoBinding
    with pb Cons show ?thesis by simp
  next
    case (Binding idf)
    with pb Cons show ?thesis by (cases idf) (simp_all add: variable_item_def)
  qed
qed

lemma extractDetachedVariables_ts_eq:
  "extractDetachedVariables_ts vars node page = extractDetachedVariables vars node page"
  by (cases "boundVariables node")
     (simp_all add: extractDetachedVariables_ts_def extractDetachedVariables_def
        variable_loop_foldl)

lemma node_loop_foldl:
  "node_loop vars page nodes found =
     foldl (\<lambda>found node.
              (let found1 =
                     (if node_type node = ''INSTANCE'' \<and> mainComponent node = MainNull
                      then found @
                        [\<lparr>item_id = node_id node,
                          item_name = str_or (node_name node) ''Unnamed Instance'',
                          item_type = Component,
                          item_pageId = page_id page,
                          item_pageName = page_name page,
                          metadata = None\<rparr>]
                      else found);
                   variableIssues = extractDetachedVariables_ts vars node page
               in if length variableIssues > 0 then found1 @ variableIssues else found1))
       found nodes"
  by (induction nodes arbitrary: found)
     (simp_all add: Let_def isDetachedComponent_def isInstanceNode_def component_item_def
        extractDetachedVariables_ts_eq del: length_greater_0_conv)

lemma getDetachedItemsForPage_ts_eq:
  "getDetachedItemsForPage_ts vars page = getDetachedItemsForPage vars page"
  by (simp only: getDetachedItemsForPage_ts_def getDetachedItemsForPage_def node_loop_foldl)

lemma scanFile_loop2_ts_eq:
  "scanFile_loop2_ts vars ps pb tc tv =
     scan_pages2 vars ps
       \<lparr>totalDetachedComponents = tc, totalDetachedVariables = tv, d_pageBreakdown = pb\<rparr>"
proof (induction ps arbitrary: pb tc tv)
  case Nil
  then show ?case by simp
next
  case (Cons page rest)
  show ?case
  proof (cases "getDetachedItemsForPage vars page")
    case (Inl e)
    then show ?thesis by (simp add: getDetachedItemsForPage_ts_eq)
  next
    case (Inr its)
    then show ?thesis
      by (simp add: getDetachedItemsForPage_ts_eq Cons.IH add_page_def
          del: length_greater_0_conv)
  qed
qed

text \<open>
  C10.  For every document (and every comparator and every state of the host's
  variables) the compiled JavaScript and the TypeScript source of a pipeline return the
  same thing from scanFile: the same summary, or the same thrown value.
\<close>

theorem compiled_matches_source:
  "scanFile1_ts cmp pages = scanFile1 cmp pages \<and> scanFile2_ts vars pages = scanFile2 vars pages"
  by (simp add: scanFile1_ts_def scanFile1_def scanFile_loop_ts_eq scanFile2_ts_def
      scanFile2_def scanFile_loop2_ts_eq)

section \<open>An example document and an example collation\<close>

text \<open>
  A comparator for the examples: code units compared from the left after folding the
  upper-case ASCII letters onto the lower-case ones.
\<close>

fun lex_compare :: "nat list \<Rightarrow> nat list \<Rightarrow> int" where
  "lex_compare [] [] = 0"
| "lex_compare [] (y # ys) = - 1"
| "lex_compare (x # xs) [] = 1"
| "lex_compare (x # xs) (y # ys) =
     (if x < y then - 1 else if y < x then 1 else lex_compare xs ys)"

definition fold_case :: "char \<Rightarrow> nat" where
  "fold_case ch = (let n = of_char ch in if 65 \<le> n \<and> n \<le> 90 then n + 32 else n)"

definition caseless_compare :: "string comparator" where
  "caseless_compare a b = lex_compare (map fold_case a) (map fold_case b)"

definition inst :: "string \<Rightarrow> string \<Rightarrow> main_ref \<Rightarrow> scene_node" where
  "inst i n m =
     \<lparr>node_id = i, node_name = n, node_type = ''INSTANCE'', mainComponent = m,
      boundVariables = None\<rparr>"

definition logo_set :: component_node where
  "logo_set = \<lparr>comp_id = ''1:1'', comp_key = ''K1'', comp_name = ''Logo Set''\<rparr>"

definition header :: component_node where
  "header = \<lparr>comp_id = ''1:2'', comp_key = ''K2'', comp_name = ''Header''\<rparr>"

definition cover :: page_node where
  "cover =
     \<lparr>page_id = ''0:1'', page_name = ''Cover'',
      descendants = Inr [inst ''2:1'' ''logo-small'' (MainComponent logo_set),
                         inst ''2:2'' ''Header'' (MainComponent header),
                         inst ''2:3'' ''Logo'' (MainComponent logo_set)]\<rparr>"

definition cover_groups :: "component_group list" where
  "cover_groups =
     [\<lparr>componentId = ''1:2'', componentKey = Some ''K2'', componentName = ''Header'',
       instances =
         [\<lparr>usage_id = ''2:2'', usage_name = ''Header'', usage_componentId = ''1:2'',
           usage_componentKey = Some ''K2'', usage_componentName = ''Header''\<rparr>]\<rparr>,
      \<lparr>componentId = ''1:1'', componentKey = Some ''K1'', componentName = ''Logo Set'',
       instances =
         [\<lparr>usage_id = ''2:3'', usage_name = ''Logo'', usage_componentId = ''1:1'',
           usage_componentKey = Some ''K1'', usage_componentName = ''Logo Set''\<rparr>,
          \<lparr>usage_id = ''2:1'', usage_name = ''logo-small'', usage_componentId = ''1:1'',
           usage_componentKey = Some ''K1'', usage_componentName = ''Logo Set''\<rparr>]\<rparr>]"

definition cover_summary :: summary_data where
  "cover_summary =
     \<lparr>totalInstances = 3, totalUniqueComponents = 2,
      pageBreakdown =
        [\<lparr>pageId = ''0:1'', pageName = ''Cover'', instanceCount = 3,
          componentGroups = cover_groups\<rparr>]\<rparr>"

lemma scan_cover: "scanFile1 caseless_compare [cover] = Inr cover_summary"
  by code_simp

theorem grouping_totals_witness:
  "scanFile1 caseless_compare [cover] = Inr cover_summary \<and>
   sum_list (map (\<lambda>g. length (instances g)) cover_groups) = 3 \<and>
   map instanceCount (pageBreakdown cover_summary) = [3] \<and>
   totalInstances cover_summary = 3"
  using grouping_totals [OF scan_cover] scan_cover by (simp add: cover_summary_def)

definition inside :: page_node where
  "inside =
     \<lparr>page_id = ''0:2'', page_name = ''Inside'',
      descendants = Inr [inst ''3:1'' ''Mark'' (MainComponent logo_set)]\<rparr>"

definition two_page_summary :: summary_data where
  "two_page_summary =
     \<lparr>totalInstances = 4, totalUniqueComponents = 2,
      pageBreakdown =
        [\<lparr>pageId = ''0:1'', pageName = ''Cover'', instanceCount = 3,
          componentGroups = cover_groups\<rparr>,
         \<lparr>pageId = ''0:2'', pageName = ''Inside'', instanceCount = 1,
          componentGroups =
            [\<lparr>componentId = ''1:1'', componentKey = Some ''K1'', componentName = ''Logo Set'',
              instances =
                [\<lparr>usage_id = ''3:1'', usage_name = ''Mark'', usage_componentId = ''1:1'',
                  usage_componentKey = Some ''K1'', usage_componentName = ''Logo Set''\<rparr>]\<rparr>]\<rparr>]\<rparr>"

lemma scan_two_pages: "scanFile1 caseless_compare [cover, inside] = Inr two_page_summary"
  by code_simp

theorem unique_components_count_witness:
  "scanFile1 caseless_compare [cover, inside] = Inr two_page_summary \<and>
   map (\<lambda>pe. length (componentGroups pe)) (pageBreakdown two_page_summary) = [2, 1] \<and>
   card {k. \<exists>page ns n main. page \<in> set [cover, inside] \<and> descendants page = Inr ns \<and>
           n \<in> set ns \<and> node_type n = ''INSTANCE'' \<and>
           mainComponent n = MainComponent main \<and> k = groupKey main} = 2"
  using unique_components_count [OF scan_two_pages] scan_two_pages
  by (simp add: two_page_summary_def cover_groups_def)

lemma lex_total: "lex_compare a b \<le> 0 \<or> lex_compare b a \<le> 0"
  by (induction a b rule: lex_compare.induct) auto

lemma lex_Cons_le:
  "lex_compare (x # xs) (y # ys) \<le> 0 \<longleftrightarrow> x < y \<or> (x = y \<and> lex_compare xs ys \<le> 0)"
  by auto

lemma lex_Nil_le: "lex_compare [] b \<le> 0"
  by (cases b) auto

lemma lex_le_Nil: "lex_compare a [] \<le> 0 \<longleftrightarrow> a = []"
  by (cases a) auto

lemma lex_trans: "lex_compare a b \<le> 0 \<Longrightarrow> lex_compare b d \<le> 0 \<Longrightarrow> lex_compare a d \<le> 0"
proof (induction a arbitrary: b d)
  case Nil
  show ?case by (rule lex_Nil_le)
next
  case (Cons x xs)
  from Cons.prems(1) obtain y ys where b: "b = y # ys"
    by (cases b) (auto simp: lex_le_Nil)
  from Cons.prems(2) b obtain z zs where d: "d = z # zs"
    by (cases d) (auto simp: lex_le_Nil)
  from Cons.prems b d have xy: "x < y \<or> (x = y \<and> lex_compare xs ys \<le> 0)"
    and yz: "y < z \<or> (y = z \<and> lex_compare ys zs \<le> 0)"
    by (simp_all only: lex_Cons_le)
  then have "x < z \<or> (x = z \<and> lex_compare xs zs \<le> 0)"
    using Cons.IH [of ys zs] by auto
  then show ?case unfolding d by (simp only: lex_Cons_le)
qed

lemma consistent_caseless: "consistent caseless_compare"
  unfolding consistent_def caseless_compare_def
  using lex_total lex_trans by blast

definition cover_host :: "summary_data host" where
  "cover_host =
     \<lparr>root_children = [cover], getNodeById = (\<lambda>i. None),
      currentPage = BaseNode ''0:1'' ''PAGE'' ParentNull,
      scrolled = [], notices = [], posted = [Ready]\<rparr>"

lemma scan_cover_host: "scanFile1 caseless_compare (root_children cover_host) = Inr cover_summary"
  using scan_cover by (simp add: cover_host_def)

theorem sorted_output_witness:
  "scanFile1 caseless_compare (root_children cover_host) = Inr cover_summary \<and>
   map componentName cover_groups = [''Header'', ''Logo Set''] \<and>
   map (\<lambda>g. map usage_name (instances g)) cover_groups = [[''Header''], [''Logo'', ''logo-small'']] \<and>
   sorted_wrt (\<lambda>a b. caseless_compare (componentName a) (componentName b) \<le> 0) cover_groups \<and>
   posted (handleScanRequest1 caseless_compare (handleScanRequest1 caseless_compare cover_host)) =
     [Ready, Results cover_summary, Results cover_summary]"
proof -
  note t = sorted_output [OF consistent_caseless scan_cover_host]
  from t have "sorted_wrt (\<lambda>a b. caseless_compare (componentName a) (componentName b) \<le> 0) cover_groups"
    by (simp add: cover_summary_def)
  moreover have "posted (handleScanRequest1 caseless_compare (handleScanRequest1 caseless_compare cover_host)) =
     [Ready, Results cover_summary, Results cover_summary]"
    by (simp add: posted_handleScanRequest1 root_handleScanRequest1 scan_reply1_def scan_cover_host)
       (simp add: cover_host_def cover_summary_def)
  ultimately show ?thesis using scan_cover_host by (simp add: cover_groups_def)
qed

section \<open>Examples for pipeline 2\<close>

definition live_variables :: variables_api where
  "live_variables = Some (\<lambda>variableId. variableId = ''VariableID:1:2'')"

definition frame :: scene_node where
  "frame =
     \<lparr>node_id = ''4:1'', node_name = ''Frame'', node_type = ''FRAME'',
      mainComponent = MainUndefined,
      boundVariables = Some [(''fill'', Binding (Str ''VariableID:9:9''))]\<rparr>"

definition orphan :: scene_node where
  "orphan =
     \<lparr>node_id = ''4:2'', node_name = '''', node_type = ''INSTANCE'',
      mainComponent = MainNull,
      boundVariables = Some [(''width'', Binding (Str ''VariableID:1:2'')),
                             (''fills'', Binding NonString),
                             (''stroke'', Binding (Str ''VariableID:7:7'')),
                             (''opacity'', NoBinding),
                             (''height'', Binding (Str ''''))]\<rparr>"

definition unset_instance :: scene_node where
  "unset_instance =
     \<lparr>node_id = ''4:3'', node_name = ''Loose'', node_type = ''INSTANCE'',
      mainComponent = MainUndefined, boundVariables = None\<rparr>"

definition broken :: page_node where
  "broken =
     \<lparr>page_id = ''0:3'', page_name = ''Broken'',
      descendants = Inr [frame, orphan, unset_instance,
                         inst ''4:4'' ''Logo'' (MainComponent logo_set)]\<rparr>"

definition empty_id_frame :: scene_node where
  "empty_id_frame =
     \<lparr>node_id = ''5:1'', node_name = ''Frame'', node_type = ''FRAME'',
      mainComponent = MainUndefined,
      boundVariables = Some [(''fill'', Binding (Str ''''))]\<rparr>"

theorem binding_id_string_counterexample:
  "boundVariables empty_id_frame = Some [(''fill'', Binding (Str ''''))] \<and>
   \<not> resolves live_variables '''' \<and>
   extractDetachedVariables live_variables empty_id_frame broken = []"
  by (simp add: extractDetachedVariables_def empty_id_frame_def resolves_def live_variables_def)

theorem broken_binding_items_witness:
  "extractDetachedVariables live_variables frame broken =
     [\<lparr>item_id = ''4:1'', item_name = ''Frame'' @ [CHR '' '', CHR 0xB7, CHR '' ''] @ ''fill'',
       item_type = Variable, item_pageId = ''0:3'', item_pageName = ''Broken'',
       metadata = Some [(''property'', ''fill'')]\<rparr>] \<and>
   extractDetachedVariables live_variables orphan broken =
     [\<lparr>item_id = ''4:2'', item_name = ''INSTANCE'' @ [CHR '' '', CHR 0xB7, CHR '' ''] @ ''stroke'',
       item_type = Variable, item_pageId = ''0:3'', item_pageName = ''Broken'',
       metadata = Some [(''property'', ''stroke'')]\<rparr>]"
  using broken_binding_items [of live_variables frame broken]
    broken_binding_items [of live_variables orphan broken]
  by (simp add: bindings_of_def frame_def orphan_def broken_def reported_def resolves_def
      live_variables_def str_or_def)

definition lost_card :: scene_node where
  "lost_card =
     \<lparr>node_id = ''6:2'', node_name = ''Card'', node_type = ''INSTANCE'',
      mainComponent = MainNull, boundVariables = None\<rparr>"

definition detached :: page_node where
  "detached =
     \<lparr>page_id = ''0:4'', page_name = ''Detached'',
      descendants = Inr [orphan, lost_card]\<rparr>"

definition detached_entry :: detached_page where
  "detached_entry =
     \<lparr>d_pageId = ''0:4'', d_pageName = ''Detached'',
      items =
        [\<lparr>item_id = ''4:2'', item_name = ''Unnamed Instance'', item_type = Component,
          item_pageId = ''0:4'', item_pageName = ''Detached'', metadata = None\<rparr>,
         \<lparr>item_id = ''4:2'',
          item_name = ''INSTANCE'' @ [CHR '' '', CHR 0xB7, CHR '' ''] @ ''stroke'',
          item_type = Variable, item_pageId = ''0:4'', item_pageName = ''Detached'',
          metadata = Some [(''property'', ''stroke'')]\<rparr>,
         \<lparr>item_id = ''6:2'', item_name = ''Card'', item_type = Component,
          item_pageId = ''0:4'', item_pageName = ''Detached'', metadata = None\<rparr>]\<rparr>"

lemma scan2_detached:
  "scanFile2 live_variables ([cover] @ detached # []) =
     Inr \<lparr>totalDetachedComponents = 2, totalDetachedVariables = 1,
          d_pageBreakdown = [detached_entry]\<rparr>"
  by code_simp

theorem orphaned_page_witness:
  "descendants detached = Inr [orphan, lost_card] \<and>
   node_type orphan = ''INSTANCE'' \<and> mainComponent orphan = MainNull \<and>
   node_type lost_card = ''INSTANCE'' \<and> mainComponent lost_card = MainNull \<and>
   scanFile1 caseless_compare [cover, detached] = Inr cover_summary \<and>
   scanFile2 live_variables [cover, detached] =
     Inr \<lparr>totalDetachedComponents = 2, totalDetachedVariables = 1,
          d_pageBreakdown = [detached_entry]\<rparr> \<and>
   getDetachedItemsForPage live_variables detached = Inr (items detached_entry) \<and>
   map item_name (filter (\<lambda>item. item_type item = Component) (items detached_entry)) =
     [''Unnamed Instance'', ''Card'']"
proof -
  have h1: "descendants detached = Inr [orphan, lost_card]"
    by (simp add: detached_def)
  have h2: "\<forall>n \<in> set [orphan, lost_card]. node_type n = ''INSTANCE'' \<longrightarrow> mainComponent n = MainNull"
    by (simp add: orphan_def lost_card_def)
  have h3: "\<exists>n \<in> set [orphan, lost_card]. node_type n = ''INSTANCE''"
    by (simp add: orphan_def)
  note t = orphaned_page [OF h1 h2, of caseless_compare "[cover]" "[]" live_variables]
  from t have "scanFile1 caseless_compare [cover, detached] = scanFile1 caseless_compare [cover]"
    by simp
  with scan_cover have one: "scanFile1 caseless_compare [cover, detached] = Inr cover_summary"
    by simp
  from t h3 scan2_detached obtain its where
    its: "getDetachedItemsForPage live_variables detached = Inr its"
    and "\<lparr>d_pageId = page_id detached, d_pageName = page_name detached, items = its\<rparr>
           \<in> set [detached_entry]"
    by fastforce
  then have "its = items detached_entry"
    by (simp add: detached_entry_def)
  with its have two: "getDetachedItemsForPage live_variables detached = Inr (items detached_entry)"
    by simp
  from one two show ?thesis
    using h1 scan2_detached by (simp add: orphan_def lost_card_def detached_entry_def)
qed

definition broken_summary :: detached_summary where
  "broken_summary =
     \<lparr>totalDetachedComponents = 1, totalDetachedVariables = 2,
      d_pageBreakdown =
        [\<lparr>d_pageId = ''0:3'', d_pageName = ''Broken'',
          items =
            [\<lparr>item_id = ''4:1'',
              item_name = ''Frame'' @ [CHR '' '', CHR 0xB7, CHR '' ''] @ ''fill'',
              item_type = Variable, item_pageId = ''0:3'', item_pageName = ''Broken'',
              metadata = Some [(''property'', ''fill'')]\<rparr>,
             \<lparr>item_id = ''4:2'', item_name = ''Unnamed Instance'', item_type = Component,
              item_pageId = ''0:3'', item_pageName = ''Broken'', metadata = None\<rparr>,
             \<lparr>item_id = ''4:2'',
              item_name = ''INSTANCE'' @ [CHR '' '', CHR 0xB7, CHR '' ''] @ ''stroke'',
              item_type = Variable, item_pageId = ''0:3'', item_pageName = ''Broken'',
              metadata = Some [(''property'', ''stroke'')]\<rparr>]\<rparr>]\<rparr>"

lemma scan2_broken: "scanFile2 live_variables [cover, broken] = Inr broken_summary"
  by code_simp

theorem discovery_order_witness:
  "scanFile2 live_variables [cover, broken] = Inr broken_summary \<and>
   map node_id [frame, orphan, unset_instance] = [''4:1'', ''4:2'', ''4:3''] \<and>
   map (\<lambda>item. (item_id item, item_type item))
     (concat (map items (d_pageBreakdown broken_summary))) =
     [(''4:1'', Variable), (''4:2'', Component), (''4:2'', Variable)]"
  using discovery_order [OF scan2_broken] scan2_broken
  by (simp add: broken_summary_def frame_def orphan_def unset_instance_def)

section \<open>Examples for the dispatcher\<close>

definition document_node :: base_node where
  "document_node = BaseNode ''0:0'' ''DOCUMENT'' ParentNull"

definition cover_node :: base_node where
  "cover_node = BaseNode ''0:1'' ''PAGE'' (Parent document_node)"

definition inside_node :: base_node where
  "inside_node = BaseNode ''0:2'' ''PAGE'' (Parent document_node)"

definition logo_node :: base_node where
  "logo_node =
     BaseNode ''2:3'' ''INSTANCE'' (Parent (BaseNode ''2:0'' ''GROUP'' (Parent cover_node)))"

definition floating_node :: base_node where
  "floating_node = BaseNode ''9:9'' ''FRAME'' NoParentProperty"

definition lookup :: "string \<Rightarrow> base_node option" where
  "lookup i =
     (if i = ''2:3'' then Some logo_node
      else if i = ''9:9'' then Some floating_node else None)"

definition host1 :: "page_node list \<Rightarrow> summary_data host" where
  "host1 pages =
     \<lparr>root_children = pages, getNodeById = lookup, currentPage = inside_node,
      scrolled = [], notices = [], posted = [Ready]\<rparr>"

definition host2 :: "page_node list \<Rightarrow> detached_summary host" where
  "host2 pages =
     \<lparr>root_children = pages, getNodeById = lookup, currentPage = inside_node,
      scrolled = [], notices = [], posted = [Ready]\<rparr>"

definition faulty :: page_node where
  "faulty =
     \<lparr>page_id = ''0:5'', page_name = ''Faulty'',
      descendants = Inl (ThrownError ''Page could not be loaded'')\<rparr>"

definition odd :: page_node where
  "odd = \<lparr>page_id = ''0:6'', page_name = ''Odd'', descendants = Inl ThrownOther\<rparr>"

lemma scan1_faulty:
  "scanFile1 caseless_compare (root_children (host1 [cover, faulty, inside])) =
     Inl (ThrownError ''Page could not be loaded'')"
  by code_simp

lemma scan2_odd:
  "scanFile2 live_variables (root_children (host2 [broken, odd])) = Inl ThrownOther"
  by code_simp

theorem scan_failure_reported_witness:
  "scanFile1 caseless_compare (root_children (host1 [cover, faulty, inside])) =
     Inl (ThrownError ''Page could not be loaded'') \<and>
   notices (onmessage1 caseless_compare scan_request (host1 [cover, faulty, inside])) =
     [(''Page could not be loaded'', 2000)] \<and>
   posted (onmessage1 caseless_compare scan_request (host1 [cover, faulty, inside])) =
     [Ready, ErrorMessage ''Page could not be loaded''] \<and>
   scanFile2 live_variables (root_children (host2 [broken, odd])) = Inl ThrownOther \<and>
   notices (onmessage2 live_variables scan_request (host2 [broken, odd])) =
     [(''Unexpected error during scan'', 2000)] \<and>
   posted (onmessage2 live_variables scan_request (host2 [broken, odd])) =
     [Ready, ErrorMessage ''Unexpected error during scan'']"
  using scan_failure_reported [of caseless_compare "host1 [cover, faulty, inside]"
      "ThrownError ''Page could not be loaded''" live_variables "host2 [broken, odd]" ThrownOther]
    scan1_faulty scan2_odd
  by (simp add: host1_def host2_def)

lemma scan1_detached:
  "scanFile1 caseless_compare (root_children (host1 [detached])) =
     Inr \<lparr>totalInstances = 0, totalUniqueComponents = 0, pageBreakdown = []\<rparr>"
  by code_simp

lemma scan2_cover:
  "scanFile2 live_variables (root_children (host2 [cover])) =
     Inr \<lparr>totalDetachedComponents = 0, totalDetachedVariables = 0, d_pageBreakdown = []\<rparr>"
  by code_simp

theorem empty_scan_reply_witness:
  "root_children (host1 []) = [] \<and>
   posted (onmessage1 caseless_compare scan_request (host1 [])) =
     [Ready, Results \<lparr>totalInstances = 0, totalUniqueComponents = 0, pageBreakdown = []\<rparr>] \<and>
   notices (onmessage1 caseless_compare scan_request (host1 [])) = [] \<and>
   root_children (host2 []) = [] \<and>
   posted (onmessage2 live_variables scan_request (host2 [])) =
     [Ready, Results \<lparr>totalDetachedComponents = 0, totalDetachedVariables = 0,
                      d_pageBreakdown = []\<rparr>] \<and>
   posted (onmessage1 caseless_compare scan_request (host1 [detached])) =
     [Ready, Results \<lparr>totalInstances = 0, totalUniqueComponents = 0, pageBreakdown = []\<rparr>] \<and>
   posted (onmessage2 live_variables scan_request (host2 [cover])) =
     [Ready, Results \<lparr>totalDetachedComponents = 0, totalDetachedVariables = 0,
                      d_pageBreakdown = []\<rparr>]"
  using empty_scan_reply [of caseless_compare "host1 []" _ live_variables "host2 []"]
    empty_scan_reply [of caseless_compare "host1 [detached]"
      "\<lparr>totalInstances = 0, totalUniqueComponents = 0, pageBreakdown = []\<rparr>"
      live_variables "host2 [cover]"
      "\<lparr>totalDetachedComponents = 0, totalDetachedVariables = 0, d_pageBreakdown = []\<rparr>"]
    scan1_detached scan2_cover
  by (simp add: host1_def host2_def)

theorem navigate_request_effect_witness:
  "getNodeById (host1 [cover]) ''7:7'' = None \<and>
   posted (onmessage1 caseless_compare (navigate_request ''7:7'') (host1 [cover])) =
     [Ready, ErrorMessage ''Node not found or removed.''] \<and>
   notices (onmessage1 caseless_compare (navigate_request ''7:7'') (host1 [cover])) =
     [(''Target node not found. It may have been deleted.'', 2000)] \<and>
   currentPage (onmessage1 caseless_compare (navigate_request ''7:7'') (host1 [cover])) =
     inside_node \<and>
   scrolled (onmessage1 caseless_compare (navigate_request ''7:7'') (host1 [cover])) = [] \<and>
   getNodeById (host1 [cover]) ''2:3'' = Some logo_node \<and>
   currentPage (onmessage1 caseless_compare (navigate_request ''2:3'') (host1 [cover])) =
     cover_node \<and>
   scrolled (onmessage1 caseless_compare (navigate_request ''2:3'') (host1 [cover])) =
     [[logo_node]] \<and>
   getNodeById (host1 [cover]) ''9:9'' = Some floating_node \<and>
   currentPage (onmessage1 caseless_compare (navigate_request ''9:9'') (host1 [cover])) =
     inside_node \<and>
   scrolled (onmessage1 caseless_compare (navigate_request ''9:9'') (host1 [cover])) =
     [[floating_node]]"
  using navigate_request_effect [of "host1 [cover]" "''7:7''" "handleScanRequest1 caseless_compare"]
    navigate_request_effect [of "host1 [cover]" "''2:3''" "handleScanRequest1 caseless_compare" logo_node]
    navigate_request_effect [of "host1 [cover]" "''9:9''" "handleScanRequest1 caseless_compare" floating_node]
  by (simp add: host1_def lookup_def onmessage1_def ancestors_def logo_node_def cover_node_def
      floating_node_def)

end
